theory Spec2Isabelle
  imports Main "HOL-Library.Word"
begin

section \<open>The TRK writer of pytrack: data model\<close>

text \<open>
  The development follows \<^verbatim>\<open>src/pytrack/track.py\<close>. A byte is an 8-bit word; a
  \<^verbatim>\<open>bytes\<close> or \<^verbatim>\<open>bytearray\<close> object is a list of bytes.
\<close>

type_synonym byte = "8 word"

text \<open>
  The exceptions that \<^verbatim>\<open>write_trk\<close> can raise from its own text:
  \<^item> \<open>ValueError\<close>, raised by line 12 when the node count exceeds \<open>MAX_NODES\<close> (the
    specification calls it \<^verbatim>\<open>NodeCountExceeded\<close>);
  \<^item> \<open>UnicodeEncodeError\<close>, raised by \<^verbatim>\<open>str.encode('utf-8')\<close> on a lone surrogate;
  \<^item> \<open>OverflowError\<close>, raised by \<^verbatim>\<open>int.to_bytes\<close> when the integer does not fit,
    and by \<^verbatim>\<open>struct.pack('<ff', ...)\<close> on a \<^verbatim>\<open>float\<close> that is finite but too large
    for a 32-bit float;
  \<^item> \<open>StructError\<close>, the \<^verbatim>\<open>struct.error\<close> that \<^verbatim>\<open>struct.pack('<ff', ...)\<close> raises on an
    \<^verbatim>\<open>int\<close> that is too large.
  Failures of the operating system (\<^verbatim>\<open>open\<close> or \<^verbatim>\<open>write\<close> refusing) are not
  modelled: the destination accepts every write.
\<close>

datatype error = ValueError | UnicodeEncodeError | OverflowError | StructError

text \<open>
  A coordinate is a Python number: an \<^verbatim>\<open>int\<close> (unbounded; \<^verbatim>\<open>main.py\<close> builds its
  track from integers) or a \<^verbatim>\<open>float\<close>, which is an IEEE-754 binary64 value and is kept
  here as its 64-bit pattern.
\<close>

datatype pynum = PyInt int | PyFloat "64 word"

text \<open>
  A Python \<^verbatim>\<open>str\<close> is a sequence of code points, each a number up to \<open>0x10FFFF\<close>
  (surrogates \<open>0xD800..0xDFFF\<close> included).
\<close>

type_synonym pystr = "nat list"

record Track =
  name :: pystr
  nodes :: "(pynum \<times> pynum) list"

text \<open>
  The state a call works on: the object \<^verbatim>\<open>self\<close> and the files of the file system,
  by name. A file that does not exist is \<open>None\<close>.
\<close>

record state =
  self :: Track
  files :: "string \<rightharpoonup> byte list"

definition MAX_NODES :: nat where
  "MAX_NODES = 65535"

section \<open>The library calls\<close>

subsection \<open>bytearray, slice assignment, int.to\_bytes\<close>

definition bytearray :: "nat \<Rightarrow> byte list" where
  "bytearray n = replicate n 0"

text \<open>
  \<^verbatim>\<open>b[i:j] = v\<close> on a bytearray, for \<open>0 \<le> i\<close> and \<open>0 \<le> j\<close>: both bounds are clipped to the
  length, an upper bound below the lower one is raised to it, and the slice is replaced by
  \<open>v\<close>, whatever the length of \<open>v\<close>. (\<open>take\<close> and \<open>drop\<close> clip at the length.)
\<close>

definition setslice :: "byte list \<Rightarrow> nat \<Rightarrow> nat \<Rightarrow> byte list \<Rightarrow> byte list" where
  "setslice b i j v = take i b @ v @ drop (max i j) b"

text \<open>The \<open>len\<close> low bytes of \<open>n\<close>, least significant first.\<close>

fun le_bytes :: "nat \<Rightarrow> nat \<Rightarrow> byte list" where
  "le_bytes 0 n = []"
| "le_bytes (Suc len) n = of_nat (n mod 256) # le_bytes len (n div 256)"

text \<open>
  \<^verbatim>\<open>n.to_bytes(len, byteorder='little', signed=False)\<close>: OverflowError for a negative
  \<open>n\<close> and for an \<open>n\<close> that needs more than \<open>len\<close> bytes.
\<close>

definition to_bytes :: "int \<Rightarrow> nat \<Rightarrow> error + byte list" where
  "to_bytes n len =
     (if n < 0 \<or> 256 ^ len \<le> n then Inl OverflowError else Inr (le_bytes len (nat n)))"

subsection \<open>str.encode('utf-8')\<close>

definition utf8_char :: "nat \<Rightarrow> error + byte list" where
  "utf8_char c =
     (if c < 0x80 then Inr [of_nat c]
      else if c < 0x800 then Inr [of_nat (0xC0 + c div 64), of_nat (0x80 + c mod 64)]
      else if 0xD800 \<le> c \<and> c \<le> 0xDFFF then Inl UnicodeEncodeError
      else if c < 0x10000 then
        Inr [of_nat (0xE0 + c div 4096), of_nat (0x80 + c div 64 mod 64), of_nat (0x80 + c mod 64)]
      else if c < 0x110000 then
        Inr [of_nat (0xF0 + c div 262144), of_nat (0x80 + c div 4096 mod 64),
             of_nat (0x80 + c div 64 mod 64), of_nat (0x80 + c mod 64)]
      else Inl UnicodeEncodeError)"

text \<open>
  The last branch is never taken on a Python \<^verbatim>\<open>str\<close>, which holds no code point above
  \<open>0x10FFFF\<close>; it only makes the function total on \<open>nat\<close>.
\<close>

fun encode_utf8 :: "pystr \<Rightarrow> error + byte list" where
  "encode_utf8 [] = Inr []"
| "encode_utf8 (c # cs) =
     (case utf8_char c of
        Inl e \<Rightarrow> Inl e
      | Inr b \<Rightarrow> (case encode_utf8 cs of Inl e \<Rightarrow> Inl e | Inr bs \<Rightarrow> Inr (b @ bs)))"

subsection \<open>struct.pack('<ff', x, y)\<close>

text \<open>
  \<^verbatim>\<open>struct.pack\<close> with format \<^verbatim>\<open>f\<close> turns its argument into a C double (an
  \<^verbatim>\<open>int\<close> is converted, rounding to nearest, ties to even, OverflowError when it is too
  large), casts the double to a C float (again to nearest, ties to even) and raises
  OverflowError when the cast of a finite double is infinite.

  Magnitudes are counted in units of \<open>2 ^ - 1074\<close>, the smallest positive double, so
  that every exponent is a natural number. Both roundings are one function:
  \<open>round_pack p emin m e\<close> is the magnitude field (biased exponent and fraction, without
  the sign bit) of the value nearest to \<open>m * 2 ^ e\<close> units in the binary format with
  \<open>p\<close> significand bits whose smallest subnormal is \<open>2 ^ emin\<close> units.
  \<open>round_exp\<close> is the exponent of the last place of the result (the truncated
  subtraction of \<open>p\<close> is harmless under the \<open>max\<close>) and \<open>round_sig\<close> its significand,
  which may reach \<open>2 ^ p\<close> and then carries into the exponent. A result that reaches
  the all-ones exponent is the format's infinity.
\<close>

fun bit_length :: "nat \<Rightarrow> nat" where
  "bit_length n = (if n = 0 then 0 else Suc (bit_length (n div 2)))"

declare bit_length.simps [simp del]

definition round_half_even :: "nat \<Rightarrow> nat \<Rightarrow> nat" where
  "round_half_even m k =
     (let q = m div 2 ^ k; r = m mod 2 ^ k
      in if 2 ^ k < 2 * r \<or> (2 * r = 2 ^ k \<and> odd q) then q + 1 else q)"

definition round_exp :: "nat \<Rightarrow> nat \<Rightarrow> nat \<Rightarrow> nat \<Rightarrow> nat" where
  "round_exp p emin m e = max (bit_length m + e - p) emin"

definition round_sig :: "nat \<Rightarrow> nat \<Rightarrow> nat \<Rightarrow> nat \<Rightarrow> nat" where
  "round_sig p emin m e =
     (let E = round_exp p emin m e
      in if E \<le> e then m * 2 ^ (e - E) else round_half_even m (E - e))"

definition round_pack :: "nat \<Rightarrow> nat \<Rightarrow> nat \<Rightarrow> nat \<Rightarrow> nat" where
  "round_pack p emin m e =
     (if m = 0 then 0
      else (round_exp p emin m e - emin) * 2 ^ (p - 1) + round_sig p emin m e)"

text \<open>
  \<^verbatim>\<open>PyLong_AsDouble\<close>: the binary64 pattern of an integer. The integer \<open>n\<close> is
  \<open>\<bar>n\<bar> * 2 ^ 1074\<close> units, and the smallest subnormal double is one unit.
\<close>

definition int_to_double :: "int \<Rightarrow> error + 64 word" where
  "int_to_double n =
     (let mag = round_pack 53 0 (nat \<bar>n\<bar>) 1074
      in if 0x7FF0000000000000 \<le> mag then Inl OverflowError
         else Inr (of_nat ((if n < 0 then 2 ^ 63 else 0) + mag)))"

text \<open>The fields of a binary64 pattern.\<close>

definition dbl_sign :: "64 word \<Rightarrow> nat" where
  "dbl_sign w = unat w div 2 ^ 63"

definition dbl_exp :: "64 word \<Rightarrow> nat" where
  "dbl_exp w = unat w div 2 ^ 52 mod 2 ^ 11"

definition dbl_frac :: "64 word \<Rightarrow> nat" where
  "dbl_frac w = unat w mod 2 ^ 52"

text \<open>
  \<^verbatim>\<open>PyFloat_Pack4\<close>: the cast to binary32. A subnormal double is \<open>frac\<close> units and a
  normal one \<open>(2 ^ 52 + frac) * 2 ^ (exp - 1)\<close> units; the smallest subnormal float,
  \<open>2 ^ - 149\<close>, is \<open>2 ^ 925\<close> units. Infinities stay infinities; a NaN keeps its sign
  and the upper 22 payload bits and is made quiet, as the cast instruction of x86-64 and
  AArch64 does.
\<close>

definition double_to_float :: "64 word \<Rightarrow> error + 32 word" where
  "double_to_float w =
     (let s = dbl_sign w; ex = dbl_exp w; fr = dbl_frac w
      in if ex = 2047 then
           (if fr = 0 then Inr (of_nat (s * 2 ^ 31 + 0x7F800000))
            else Inr (of_nat (s * 2 ^ 31 + 0x7FC00000 + fr div 2 ^ 29 mod 2 ^ 22)))
         else
           let mag = (if ex = 0 then round_pack 24 925 fr 0
                      else round_pack 24 925 (2 ^ 52 + fr) (ex - 1))
           in if 0x7F800000 \<le> mag then Inl OverflowError
              else Inr (of_nat (s * 2 ^ 31 + mag)))"

text \<open>
  The number as a binary32 pattern. A \<^verbatim>\<open>float\<close> is cast; an \<^verbatim>\<open>int\<close> goes through the
  double first, and \<^verbatim>\<open>struct\<close> turns both of its overflows into \<^verbatim>\<open>struct.error\<close>.
\<close>

definition to_float32 :: "pynum \<Rightarrow> error + 32 word" where
  "to_float32 v =
     (case v of
        PyInt n \<Rightarrow>
          (case int_to_double n of
             Inl e \<Rightarrow> Inl StructError
           | Inr d \<Rightarrow> (case double_to_float d of Inl e \<Rightarrow> Inl StructError | Inr w \<Rightarrow> Inr w))
      | PyFloat d \<Rightarrow> double_to_float d)"

text \<open>Format \<^verbatim>\<open><f\<close>: the four bytes of the pattern, least significant first.\<close>

definition pack_f :: "pynum \<Rightarrow> error + byte list" where
  "pack_f v =
     (case to_float32 v of Inl e \<Rightarrow> Inl e | Inr w \<Rightarrow> Inr (le_bytes 4 (unat w)))"

definition pack_ff :: "pynum \<Rightarrow> pynum \<Rightarrow> error + byte list" where
  "pack_ff x y =
     (case pack_f x of
        Inl e \<Rightarrow> Inl e
      | Inr a \<Rightarrow> (case pack_f y of Inl e \<Rightarrow> Inl e | Inr b \<Rightarrow> Inr (a @ b)))"

subsection \<open>open(filename, 'wb') and f.write\<close>

text \<open>Mode \<^verbatim>\<open>'wb'\<close> creates the file, or empties the one that is there.\<close>

definition open_wb :: "string \<Rightarrow> state \<Rightarrow> state" where
  "open_wb filename s = s\<lparr>files := (files s)(filename \<mapsto> [])\<rparr>"

text \<open>
  \<^verbatim>\<open>f.write(bs)\<close> appends. The \<^verbatim>\<open>with\<close> block closes the file on every way out, so
  what has been written is in the file when the call ends, also when it ends by an
  exception.
\<close>

definition f_write :: "string \<Rightarrow> byte list \<Rightarrow> state \<Rightarrow> state" where
  "f_write filename bs s =
     s\<lparr>files := (files s)(filename \<mapsto>
          (case files s filename of None \<Rightarrow> bs | Some old \<Rightarrow> old @ bs))\<rparr>"

section \<open>Track.write\_trk\<close>

text \<open>Lines 16 to 22: the header buffer, up to the moment it is written.\<close>

definition make_header :: "pystr \<Rightarrow> error + byte list" where
  "make_header nm =
     (let header = bytearray 128;
          header = setslice header 0 4 (map of_char ''TRKF'')
      in (case to_bytes 0 4 of
            Inl e \<Rightarrow> Inl e
          | Inr major \<Rightarrow>
              (let header = setslice header 4 8 major
               in (case to_bytes 1 4 of
                     Inl e \<Rightarrow> Inl e
                   | Inr minor \<Rightarrow>
                       (let header = setslice header 8 12 minor
                        in (case encode_utf8 nm of
                              Inl e \<Rightarrow> Inl e
                            | Inr enc \<Rightarrow>
                                (let name_bytes = take 64 enc
                                 in Inr (setslice header 12 (12 + length name_bytes)
                                           name_bytes))))))))"

text \<open>Lines 27 and 28: the loop over the nodes. It stops at the first node that fails.\<close>

fun write_nodes :: "string \<Rightarrow> (pynum \<times> pynum) list \<Rightarrow> state \<Rightarrow> (error + unit) \<times> state" where
  "write_nodes filename [] s = (Inr (), s)"
| "write_nodes filename ((x, y) # ns) s =
     (case pack_ff x y of
        Inl e \<Rightarrow> (Inl e, s)
      | Inr bs \<Rightarrow> write_nodes filename ns (f_write filename bs s))"

definition write_trk :: "string \<Rightarrow> state \<Rightarrow> (error + unit) \<times> state" where
  "write_trk filename s =
     (if MAX_NODES < length (nodes (self s)) then (Inl ValueError, s)
      else
        (let s = open_wb filename s
         in (case make_header (name (self s)) of
               Inl e \<Rightarrow> (Inl e, s)
             | Inr header \<Rightarrow>
                 (let s = f_write filename header s
                  in (case to_bytes (int (length (nodes (self s)))) 2 of
                        Inl e \<Rightarrow> (Inl e, s)
                      | Inr count \<Rightarrow>
                          (let s = f_write filename count s
                           in write_nodes filename (nodes (self s)) s))))))"

section \<open>Observations used in the statements\<close>

text \<open>
  What the loop of lines 27 and 28 has written when it stops, and how it stops: the bytes
  of the nodes before the first one that \<^verbatim>\<open>struct.pack\<close> refuses, and that node's error.
\<close>

fun nodes_written :: "(pynum \<times> pynum) list \<Rightarrow> byte list" where
  "nodes_written [] = []"
| "nodes_written ((x, y) # ns) =
     (case pack_ff x y of Inl e \<Rightarrow> [] | Inr bs \<Rightarrow> bs @ nodes_written ns)"

fun nodes_outcome :: "(pynum \<times> pynum) list \<Rightarrow> error + unit" where
  "nodes_outcome [] = Inr ()"
| "nodes_outcome ((x, y) # ns) =
     (case pack_ff x y of Inl e \<Rightarrow> Inl e | Inr bs \<Rightarrow> nodes_outcome ns)"

text \<open>A number that \<^verbatim>\<open>struct.pack\<close> accepts for the format \<^verbatim>\<open>f\<close>.\<close>

definition packable :: "pynum \<Rightarrow> bool" where
  "packable v = (\<not> isl (pack_f v))"

definition all_packable :: "(pynum \<times> pynum) list \<Rightarrow> bool" where
  "all_packable ns = list_all (\<lambda>(x, y). packable x \<and> packable y) ns"

text \<open>The four bytes of a packable number (the empty list for one that is not).\<close>

definition float_bytes :: "pynum \<Rightarrow> byte list" where
  "float_bytes v = (case pack_f v of Inl e \<Rightarrow> [] | Inr bs \<Rightarrow> bs)"

text \<open>Bytes \<open>i\<close> to \<open>j - 1\<close> of a file, and the unsigned little-endian number they hold.\<close>

definition byte_range :: "byte list \<Rightarrow> nat \<Rightarrow> nat \<Rightarrow> byte list" where
  "byte_range bs i j = take (j - i) (drop i bs)"

fun decode_le :: "byte list \<Rightarrow> nat" where
  "decode_le [] = 0"
| "decode_le (b # bs) = unat b + 256 * decode_le bs"

text \<open>
  What the claims call a 32-bit little-endian float: \<open>bs\<close> are four bytes whose
  little-endian number is the binary32 pattern of \<open>v\<close>.
\<close>

definition float32_le :: "pynum \<Rightarrow> byte list \<Rightarrow> bool" where
  "float32_le v bs =
     (case to_float32 v of Inl e \<Rightarrow> False | Inr w \<Rightarrow> length bs = 4 \<and> decode_le bs = unat w)"

text \<open>
  The value of a binary32 pattern as IEEE 754 defines it, for reading the result of the
  cast: sign, biased exponent and fraction, and the magnitude of a finite pattern in
  units of \<open>2 ^ - 1074\<close>. A subnormal float is \<open>frac * 2 ^ - 149\<close> and a normal one
  \<open>(2 ^ 23 + frac) * 2 ^ (exp - 150)\<close>. The same for a binary64 pattern, whose
  subnormals are \<open>frac * 2 ^ - 1074\<close> and normals \<open>(2 ^ 52 + frac) * 2 ^ (exp - 1075)\<close>.
\<close>

definition flt_sign :: "32 word \<Rightarrow> nat" where
  "flt_sign w = unat w div 2 ^ 31"

definition flt_exp :: "32 word \<Rightarrow> nat" where
  "flt_exp w = unat w div 2 ^ 23 mod 2 ^ 8"

definition flt_frac :: "32 word \<Rightarrow> nat" where
  "flt_frac w = unat w mod 2 ^ 23"

definition flt_units :: "32 word \<Rightarrow> nat" where
  "flt_units w =
     (if flt_exp w = 0 then flt_frac w * 2 ^ 925
      else (2 ^ 23 + flt_frac w) * 2 ^ (flt_exp w - 1) * 2 ^ 925)"

definition dbl_units :: "64 word \<Rightarrow> nat" where
  "dbl_units w =
     (if dbl_exp w = 0 then dbl_frac w else (2 ^ 52 + dbl_frac w) * 2 ^ (dbl_exp w - 1))"

text \<open>The binary32 pattern stored least significant byte first at offset \<open>i\<close>.\<close>

definition float_at :: "byte list \<Rightarrow> nat \<Rightarrow> 32 word" where
  "float_at bs i = of_nat (decode_le (byte_range bs i (i + 4)))"

text \<open>
  Rounding to nearest: \<open>w\<close> is a finite binary32 pattern with the sign of the double
  \<open>d\<close>, and no finite binary32 magnitude is nearer to the magnitude of \<open>d\<close>.
\<close>

definition nearest_float32 :: "64 word \<Rightarrow> 32 word \<Rightarrow> bool" where
  "nearest_float32 d w \<longleftrightarrow>
     flt_sign w = dbl_sign d \<and> flt_exp w \<noteq> 255
     \<and> (\<forall>v. flt_exp v \<noteq> 255 \<longrightarrow>
           \<bar>int (flt_units w) - int (dbl_units d)\<bar> \<le> \<bar>int (flt_units v) - int (dbl_units d)\<bar>)"

text \<open>The file \<open>filename\<close> after the call, and the call's result.\<close>

definition written :: "string \<Rightarrow> state \<Rightarrow> byte list option" where
  "written filename s = files (snd (write_trk filename s)) filename"

definition outcome :: "string \<Rightarrow> state \<Rightarrow> error + unit" where
  "outcome filename s = fst (write_trk filename s)"

text \<open>
  The Track of \<^verbatim>\<open>main.py\<close>, \<^verbatim>\<open>generate_straight(100)\<close>: the name is the text
  \<^verbatim>\<open>100 m Straight\<close> and the coordinates are the integers of line 8.
\<close>

definition straight_100 :: Track where
  "straight_100 =
     \<lparr>name = map of_char ''100 m Straight'',
      nodes = [(PyInt 0, PyInt 0), (PyInt 100, PyInt 0)]\<rparr>"

section \<open>Facts about the library calls\<close>

lemma length_le_bytes: "length (le_bytes k n) = k"
  by (induction k arbitrary: n) simp_all

lemma le_bytes_numeral:
  "le_bytes (numeral k) n = of_nat (n mod 256) # le_bytes (pred_numeral k) (n div 256)"
  by (simp add: numeral_eq_Suc [of k])

lemma le_bytes_2: "le_bytes 2 n = [of_nat (n mod 256), of_nat (n div 256 mod 256)]"
  by (simp add: le_bytes_numeral)

lemma to_bytes_0: "to_bytes 0 4 = Inr [0, 0, 0, 0]"
  by (simp add: to_bytes_def le_bytes_numeral)

lemma to_bytes_1: "to_bytes 1 4 = Inr [1, 0, 0, 0]"
  by (simp add: to_bytes_def le_bytes_numeral)

lemma to_bytes_count:
  "n \<le> 65535 \<Longrightarrow> to_bytes (int n) 2 = Inr [of_nat (n mod 256), of_nat (n div 256)]"
  by (simp add: to_bytes_def le_bytes_2)

lemma magic: "map of_char ''TRKF'' = [0x54, 0x52, 0x4B, 0x46 :: byte]"
  by simp

lemma header_prefix:
  "setslice (setslice (setslice (bytearray 128) 0 4 (map of_char ''TRKF'')) 4 8 [0, 0, 0, 0])
     8 12 [1, 0, 0, 0]
   = [0x54, 0x52, 0x4B, 0x46, 0, 0, 0, 0, 1, 0, 0, 0] @ replicate 116 0"
  by (simp add: bytearray_def setslice_def)

lemma setslice_after_prefix:
  assumes "length p = 12"
  shows "setslice (p @ replicate 116 0) 12 (12 + n) v = p @ v @ replicate (116 - n) 0"
  using assms by (simp add: setslice_def)

lemma make_header_eq:
  "make_header nm =
     (case encode_utf8 nm of
        Inl e \<Rightarrow> Inl e
      | Inr enc \<Rightarrow>
          Inr ([0x54, 0x52, 0x4B, 0x46, 0, 0, 0, 0, 1, 0, 0, 0] @ take 64 enc
               @ replicate (116 - min 64 (length enc)) 0))"
proof (cases "encode_utf8 nm")
  case (Inl e)
  then show ?thesis
    by (simp add: make_header_def to_bytes_0 to_bytes_1 Let_def)
next
  case (Inr enc)
  have "make_header nm =
      Inr (setslice ([0x54, 0x52, 0x4B, 0x46, 0, 0, 0, 0, 1, 0, 0, 0] @ replicate 116 0)
             12 (12 + length (take 64 enc)) (take 64 enc))"
    unfolding make_header_def Let_def to_bytes_0 to_bytes_1 Inr sum.case header_prefix ..
  also have "\<dots> = Inr ([0x54, 0x52, 0x4B, 0x46, 0, 0, 0, 0, 1, 0, 0, 0] @ take 64 enc
               @ replicate (116 - length (take 64 enc)) 0)"
    by (subst setslice_after_prefix) simp_all
  finally show ?thesis
    using Inr by simp
qed

lemma length_make_header: "make_header nm = Inr h \<Longrightarrow> length h = 128"
  by (auto simp: make_header_eq split: sum.splits)


lemma pack_f_length: "pack_f v = Inr bs \<Longrightarrow> length bs = 4"
  by (auto simp: pack_f_def length_le_bytes split: sum.splits)

lemma pack_ff_length: "pack_ff x y = Inr bs \<Longrightarrow> length bs = 8"
  by (auto simp: pack_ff_def split: sum.splits dest!: pack_f_length)

lemma pack_ff_packable:
  "packable x \<Longrightarrow> packable y \<Longrightarrow> pack_ff x y = Inr (float_bytes x @ float_bytes y)"
  by (auto simp: packable_def pack_ff_def float_bytes_def split: sum.splits)

lemma length_float_bytes: "packable v \<Longrightarrow> length (float_bytes v) = 4"
  by (auto simp: packable_def float_bytes_def split: sum.splits dest: pack_f_length)

lemma files_upd_same:
  "files s fn = Some c \<Longrightarrow> s\<lparr>files := (files s)(fn \<mapsto> c)\<rparr> = s"
proof -
  assume "files s fn = Some c"
  then have eq: "(files s)(fn \<mapsto> c) = files s"
    by (rule map_upd_triv)
  have "s\<lparr>files := (files s)(fn \<mapsto> c)\<rparr> = s\<lparr>files := files s\<rparr>"
    unfolding eq ..
  also have "\<dots> = s"
    by simp
  finally show ?thesis .
qed

lemma write_nodes_eq:
  "files s fn = Some c \<Longrightarrow>
   write_nodes fn ns s = (nodes_outcome ns, s\<lparr>files := (files s)(fn \<mapsto> c @ nodes_written ns)\<rparr>)"
proof (induction ns arbitrary: s c)
  case Nil
  show ?case
    unfolding write_nodes.simps nodes_outcome.simps nodes_written.simps append_Nil2
      files_upd_same [OF Nil] ..
next
  case (Cons n ns)
  obtain x y where n: "n = (x, y)" by (cases n)
  show ?case
  proof (cases "pack_ff x y")
    case (Inl e)
    have "write_nodes fn (n # ns) s = (Inl e, s)"
      and "nodes_outcome (n # ns) = Inl e" and "nodes_written (n # ns) = []"
      using Inl n by simp_all
    then show ?thesis
      by (simp only: append_Nil2 files_upd_same [OF Cons.prems])
  next
    case (Inr bs)
    have "files (f_write fn bs s) fn = Some (c @ bs)"
      using Cons.prems by (simp add: f_write_def)
    from Cons.IH [OF this] have "write_nodes fn ns (f_write fn bs s) =
        (nodes_outcome ns, s\<lparr>files := (files s)(fn \<mapsto> c @ bs @ nodes_written ns)\<rparr>)"
      using Cons.prems by (simp add: f_write_def fun_upd_def cong: if_cong)
    moreover have "write_nodes fn (n # ns) s = write_nodes fn ns (f_write fn bs s)"
      and "nodes_outcome (n # ns) = nodes_outcome ns"
      and "nodes_written (n # ns) = bs @ nodes_written ns"
      using Inr n by simp_all
    ultimately show ?thesis
      by (simp only:)
  qed
qed

lemma nodes_outcome_packable: "all_packable ns \<Longrightarrow> nodes_outcome ns = Inr ()"
  by (induction ns) (auto simp: all_packable_def pack_ff_packable)

lemma nodes_written_packable:
  "all_packable ns \<Longrightarrow>
   nodes_written ns = concat (map (\<lambda>(x, y). float_bytes x @ float_bytes y) ns)"
  by (induction ns) (auto simp: all_packable_def pack_ff_packable)

lemma length_nodes_written_packable:
  "all_packable ns \<Longrightarrow> length (nodes_written ns) = 8 * length ns"
  by (induction ns) (auto simp: all_packable_def pack_ff_packable length_float_bytes)

lemma write_trk_rejects:
  "MAX_NODES < length (nodes (self s)) \<Longrightarrow> write_trk fn s = (Inl ValueError, s)"
  by (simp add: write_trk_def)

lemma write_trk_unencodable:
  assumes "length (nodes (self s)) \<le> MAX_NODES" and "encode_utf8 (name (self s)) = Inl e"
  shows "write_trk fn s = (Inl e, s\<lparr>files := (files s)(fn \<mapsto> [])\<rparr>)"
  using assms by (simp add: write_trk_def open_wb_def make_header_eq Let_def)

lemma write_trk_encodable:
  assumes "length (nodes (self s)) \<le> MAX_NODES" and "encode_utf8 (name (self s)) = Inr enc"
  shows "write_trk fn s =
     (nodes_outcome (nodes (self s)),
      s\<lparr>files := (files s)(fn \<mapsto>
          [0x54, 0x52, 0x4B, 0x46, 0, 0, 0, 0, 1, 0, 0, 0] @ take 64 enc
          @ replicate (116 - min 64 (length enc)) 0
          @ [of_nat (length (nodes (self s)) mod 256), of_nat (length (nodes (self s)) div 256)]
          @ nodes_written (nodes (self s)))\<rparr>)"
proof -
  let ?h = "[0x54, 0x52, 0x4B, 0x46, 0, 0, 0, 0, 1, 0, 0, 0] @ take 64 enc
          @ replicate (116 - min 64 (length enc)) (0 :: byte)"
  let ?c = "[of_nat (length (nodes (self s)) mod 256), of_nat (length (nodes (self s)) div 256) :: byte]"
  let ?s2 = "f_write fn ?c (f_write fn ?h (open_wb fn s))"
  have n: "length (nodes (self s)) \<le> 65535"
    using assms(1) by (simp add: MAX_NODES_def)
  have s2: "files ?s2 fn = Some (?h @ ?c)" "self ?s2 = self s"
    by (simp_all add: f_write_def open_wb_def)
  have "write_trk fn s = write_nodes fn (nodes (self s)) ?s2"
    using assms by (simp add: write_trk_def make_header_eq Let_def to_bytes_count [OF n]
        open_wb_def f_write_def)
  also have "\<dots> = (nodes_outcome (nodes (self s)),
      ?s2\<lparr>files := (files ?s2)(fn \<mapsto> (?h @ ?c) @ nodes_written (nodes (self s)))\<rparr>)"
    by (rule write_nodes_eq [OF s2(1)])
  also have "?s2\<lparr>files := (files ?s2)(fn \<mapsto> (?h @ ?c) @ nodes_written (nodes (self s)))\<rparr>
    = s\<lparr>files := (files s)(fn \<mapsto> ?h @ ?c @ nodes_written (nodes (self s)))\<rparr>"
    by (simp add: f_write_def open_wb_def)
  finally show ?thesis by simp
qed

section \<open>The frame of a call\<close>

lemma write_trk_self: "self (snd (write_trk filename s)) = self s"
proof (cases "MAX_NODES < length (nodes (self s))")
  case True
  then show ?thesis
    by (simp add: write_trk_rejects)
next
  case False
  then have n: "length (nodes (self s)) \<le> MAX_NODES"
    by simp
  show ?thesis
  proof (cases "encode_utf8 (name (self s))")
    case (Inl e)
    show ?thesis
      by (simp add: write_trk_unencodable [OF n Inl])
  next
    case (Inr enc)
    show ?thesis
      by (simp add: write_trk_encodable [OF n Inr])
  qed
qed

lemma write_trk_other_files:
  "g \<noteq> filename \<Longrightarrow> files (snd (write_trk filename s)) g = files s g"
proof (cases "MAX_NODES < length (nodes (self s))")
  case True
  then show ?thesis
    by (simp add: write_trk_rejects)
next
  case False
  assume g: "g \<noteq> filename"
  from False have n: "length (nodes (self s)) \<le> MAX_NODES"
    by simp
  show ?thesis
  proof (cases "encode_utf8 (name (self s))")
    case (Inl e)
    show ?thesis
      using g by (simp add: write_trk_unencodable [OF n Inl])
  next
    case (Inr enc)
    show ?thesis
      using g by (simp add: write_trk_encodable [OF n Inr])
  qed
qed

section \<open>Evaluation at concrete inputs\<close>

lemma bit_length_0: "bit_length 0 = 0"
  by (simp add: bit_length.simps)

lemma bit_length_1: "bit_length (Suc 0) = Suc 0"
  by (simp add: bit_length.simps [of "Suc 0"] bit_length_0)

lemma bit_length_numeral:
  "bit_length (numeral k) = Suc (bit_length (numeral k div 2))"
  by (simp add: bit_length.simps [of "numeral k"])

lemmas bit_length_eval = bit_length_0 bit_length_1 bit_length_numeral

lemmas float_eval = double_to_float_def round_pack_def round_exp_def round_sig_def
  round_half_even_def Let_def
  dbl_sign_def dbl_exp_def dbl_frac_def bit_length_eval

lemma int_to_double_0: "int_to_double 0 = Inr 0"
  by (simp add: int_to_double_def round_pack_def)

text \<open>The integer \<open>2 ^ 128\<close>: a double, but one step above the largest float.\<close>

lemma int_to_double_2p128:
  "int_to_double 340282366920938463463374607431768211456 = Inr 0x47F0000000000000"
  by (simp add: int_to_double_def round_pack_def round_exp_def round_sig_def
      round_half_even_def bit_length_eval Let_def)

lemma double_to_float_2p128: "double_to_float 0x47F0000000000000 = Inl OverflowError"
  by (simp add: float_eval)

lemma pack_f_int_2p128:
  "pack_f (PyInt 340282366920938463463374607431768211456) = Inl StructError"
  by (simp add: pack_f_def to_float32_def int_to_double_2p128 double_to_float_2p128)

lemma int_to_double_100: "int_to_double 100 = Inr 0x4059000000000000"
  by (simp add: int_to_double_def round_pack_def round_exp_def round_sig_def
      bit_length_eval Let_def)

lemma double_to_float_0: "double_to_float 0 = Inr 0"
  by (simp add: float_eval)

lemma double_to_float_100: "double_to_float 0x4059000000000000 = Inr 0x42C80000"
  by (simp add: float_eval)

lemma double_to_float_1e39: "double_to_float 0x48078287F49C4A1D = Inl OverflowError"
  by (simp add: float_eval)

lemma pack_f_int_0: "pack_f (PyInt 0) = Inr [0, 0, 0, 0]"
  by (simp add: pack_f_def to_float32_def int_to_double_0 double_to_float_0 le_bytes_numeral)

lemma pack_f_int_100: "pack_f (PyInt 100) = Inr [0, 0, 0xC8, 0x42]"
  by (simp add: pack_f_def to_float32_def int_to_double_100 double_to_float_100 le_bytes_numeral)

lemma pack_f_float_0: "pack_f (PyFloat 0) = Inr [0, 0, 0, 0]"
  by (simp add: pack_f_def to_float32_def double_to_float_0 le_bytes_numeral)

lemma pack_f_float_1e39: "pack_f (PyFloat 0x48078287F49C4A1D) = Inl OverflowError"
  by (simp add: pack_f_def to_float32_def double_to_float_1e39)

lemma packable_int_0: "packable (PyInt 0)"
  by (simp add: packable_def pack_f_int_0)

lemma packable_int_100: "packable (PyInt 100)"
  by (simp add: packable_def pack_f_int_100)

lemma encode_utf8_straight:
  "encode_utf8 (map of_char ''100 m Straight'')
   = Inr [0x31, 0x30, 0x30, 0x20, 0x6D, 0x20, 0x53, 0x74, 0x72, 0x61, 0x69, 0x67, 0x68, 0x74]"
  by (simp add: utf8_char_def)

lemma encode_utf8_surrogate: "encode_utf8 [0xD800] = Inl UnicodeEncodeError"
  by (simp add: utf8_char_def)

lemma encode_utf8_ascii_run:
  "encode_utf8 (replicate n 0x61 @ cs) =
     (case encode_utf8 cs of Inl e \<Rightarrow> Inl e | Inr bs \<Rightarrow> Inr (replicate n 0x61 @ bs))"
  by (induction n) (simp_all add: utf8_char_def split: sum.splits)

lemma straight_100_fields:
  "name straight_100 = map of_char ''100 m Straight''"
  "nodes straight_100 = [(PyInt 0, PyInt 0), (PyInt 100, PyInt 0)]"
  by (simp_all add: straight_100_def)

lemma straight_100_encodes:
  "encode_utf8 (name straight_100)
   = Inr [0x31, 0x30, 0x30, 0x20, 0x6D, 0x20, 0x53, 0x74, 0x72, 0x61, 0x69, 0x67, 0x68, 0x74]"
  unfolding straight_100_fields by (rule encode_utf8_straight)

lemma straight_100_packs:
  "nodes_outcome (nodes straight_100) = Inr ()"
  "nodes_written (nodes straight_100)
   = [0, 0, 0, 0, 0, 0, 0, 0, 0, 0, 0xC8, 0x42, 0, 0, 0, 0]"
  by (simp_all add: straight_100_fields pack_ff_def pack_f_int_0 pack_f_int_100)

lemma straight_100_count: "length (nodes straight_100) \<le> MAX_NODES"
  by (simp add: straight_100_fields MAX_NODES_def)

section \<open>What a call leaves in the destination\<close>

lemma outcome_rejects:
  "MAX_NODES < length (nodes (self s)) \<Longrightarrow> outcome fn s = Inl ValueError"
  by (simp add: outcome_def write_trk_rejects)

lemma outcome_unencodable:
  "length (nodes (self s)) \<le> MAX_NODES \<Longrightarrow> encode_utf8 (name (self s)) = Inl e \<Longrightarrow>
   outcome fn s = Inl e"
  by (simp add: outcome_def write_trk_unencodable)

lemma written_unencodable:
  "length (nodes (self s)) \<le> MAX_NODES \<Longrightarrow> encode_utf8 (name (self s)) = Inl e \<Longrightarrow>
   written fn s = Some []"
  by (simp add: written_def write_trk_unencodable)

lemma outcome_encodable:
  "length (nodes (self s)) \<le> MAX_NODES \<Longrightarrow> encode_utf8 (name (self s)) = Inr enc \<Longrightarrow>
   outcome fn s = nodes_outcome (nodes (self s))"
  by (simp add: outcome_def write_trk_encodable)

lemma written_encodable:
  "length (nodes (self s)) \<le> MAX_NODES \<Longrightarrow> encode_utf8 (name (self s)) = Inr enc \<Longrightarrow>
   written fn s = Some
     (([0x54, 0x52, 0x4B, 0x46, 0, 0, 0, 0, 1, 0, 0, 0] @ take 64 enc
        @ replicate (116 - min 64 (length enc)) 0)
      @ [of_nat (length (nodes (self s)) mod 256), of_nat (length (nodes (self s)) div 256)]
      @ nodes_written (nodes (self s)))"
  by (simp add: written_def write_trk_encodable)

lemma outcome_ok:
  assumes "outcome fn s = Inr ()"
  shows "length (nodes (self s)) \<le> MAX_NODES \<and> (\<exists>enc. encode_utf8 (name (self s)) = Inr enc)"
proof (cases "MAX_NODES < length (nodes (self s))")
  case True
  with assms show ?thesis
    by (simp add: outcome_rejects)
next
  case False
  then have n: "length (nodes (self s)) \<le> MAX_NODES"
    by simp
  show ?thesis
  proof (cases "encode_utf8 (name (self s))")
    case (Inl e)
    with assms n show ?thesis
      by (simp add: outcome_unencodable)
  next
    case (Inr enc)
    with n show ?thesis
      by simp
  qed
qed

lemma written_depends_on_track:
  assumes "self s1 = self s2" and "length (nodes (self s1)) \<le> MAX_NODES"
  shows "written f1 s1 = written f2 s2 \<and> written f1 s1 \<noteq> None"
proof (cases "encode_utf8 (name (self s1))")
  case (Inl e)
  with assms show ?thesis
    by (simp add: written_unencodable)
next
  case (Inr enc)
  with assms show ?thesis
    by (simp add: written_encodable)
qed

lemma outcome_depends_on_track:
  assumes "self s1 = self s2"
  shows "outcome f1 s1 = outcome f2 s2"
proof (cases "MAX_NODES < length (nodes (self s1))")
  case True
  with assms show ?thesis
    by (simp add: outcome_rejects)
next
  case False
  then have n: "length (nodes (self s1)) \<le> MAX_NODES"
    by simp
  show ?thesis
  proof (cases "encode_utf8 (name (self s1))")
    case (Inl e)
    with assms n show ?thesis
      by (simp add: outcome_unencodable)
  next
    case (Inr enc)
    with assms n show ?thesis
      by (simp add: outcome_encodable)
  qed
qed

lemma header_layout:
  assumes "encode_utf8 nm = Inr enc"
  shows "make_header nm = Inr ([0x54, 0x52, 0x4B, 0x46, 0, 0, 0, 0, 1, 0, 0, 0] @ take 64 enc
               @ replicate (116 - min 64 (length enc)) 0)"
  using assms by (simp add: make_header_eq)

lemma byte_range_after_prefix:
  assumes "length p = 12" and "a = 12 + length v" and "b = a + length z"
  shows "byte_range (p @ v @ z) 12 a = v \<and> byte_range (p @ v @ z) a b = z"
  using assms by (simp add: byte_range_def)

lemma length_setslice_name:
  assumes "length b = 128" and "length v \<le> 64"
  shows "length (setslice b 12 (12 + length v) v) = 128"
  using assms by (simp add: setslice_def)

lemma all_packable_Cons:
  "all_packable ((x, y) # ns) \<longleftrightarrow> packable x \<and> packable y \<and> all_packable ns"
  by (simp add: all_packable_def)

lemma chunk_of_concat:
  assumes "\<And>n. n \<in> set ns \<Longrightarrow> length (f n) = k" and "i < length ns"
  shows "take k (drop (k * i) (concat (map f ns))) = f (ns ! i)"
  using assms
proof (induction ns arbitrary: i)
  case Nil
  then show ?case by simp
next
  case (Cons n ns)
  have len: "length (f n) = k"
    using Cons.prems(1) by simp
  show ?case
  proof (cases i)
    case 0
    then show ?thesis
      using len by simp
  next
    case (Suc j)
    then have "k * i = length (f n) + k * j"
      using len by simp
    then have "drop (k * i) (concat (map f (n # ns))) = drop (k * j) (concat (map f ns))"
      by simp
    with Cons.IH [of j] Cons.prems Suc show ?thesis
      by simp
  qed
qed

lemma decode_le_bytes: "decode_le (le_bytes k n) = n mod 256 ^ k"
proof (induction k arbitrary: n)
  case 0
  then show ?case by simp
next
  case (Suc k)
  have "decode_le (le_bytes (Suc k) n) = n mod 256 + 256 * (n div 256 mod 256 ^ k)"
    by (simp add: Suc.IH unat_of_nat)
  also have "\<dots> = n mod (256 * 256 ^ k)"
    by (simp add: mod_mult2_eq)
  finally show ?case by simp
qed

lemma float32_le_float_bytes:
  assumes "packable v"
  shows "float32_le v (float_bytes v)"
proof -
  from assms obtain w where w: "to_float32 v = Inr w"
    by (auto simp: packable_def pack_f_def split: sum.splits)
  have "unat w < 2 ^ 32"
    using unsigned_less [of w, where ?'a = nat] by simp
  then have "decode_le (le_bytes 4 (unat w)) = unat w"
    by (simp add: decode_le_bytes)
  with w show ?thesis
    by (simp add: float32_le_def float_bytes_def pack_f_def length_le_bytes)
qed

lemma node_chunks:
  assumes "all_packable ns" and "i < length ns"
  shows "take 4 (drop (8 * i) (nodes_written ns)) = float_bytes (fst (ns ! i))"
    and "take 4 (drop (4 + 8 * i) (nodes_written ns)) = float_bytes (snd (ns ! i))"
proof -
  let ?f = "\<lambda>(x, y). float_bytes x @ float_bytes y"
  have p: "packable (fst n) \<and> packable (snd n)" if "n \<in> set ns" for n
    using assms(1) that by (auto simp: all_packable_def list_all_iff)
  have len: "length (?f n) = 8" if "n \<in> set ns" for n
    using p [OF that] by (cases n) (simp add: length_float_bytes)
  have i: "ns ! i \<in> set ns"
    using assms(2) by simp
  have c: "take 8 (drop (8 * i) (nodes_written ns)) = ?f (ns ! i)"
    unfolding nodes_written_packable [OF assms(1)]
    by (rule chunk_of_concat [OF len assms(2)])
  have "take 4 (drop (8 * i) (nodes_written ns)) = take 4 (?f (ns ! i))"
    unfolding c [symmetric] by simp
  with p [OF i] show "take 4 (drop (8 * i) (nodes_written ns)) = float_bytes (fst (ns ! i))"
    by (cases "ns ! i") (simp add: length_float_bytes)
  have "take 4 (drop (4 + 8 * i) (nodes_written ns)) = take 4 (drop 4 (?f (ns ! i)))"
    unfolding c [symmetric] by (simp add: drop_take)
  with p [OF i] show "take 4 (drop (4 + 8 * i) (nodes_written ns)) = float_bytes (snd (ns ! i))"
    by (cases "ns ! i") (simp add: length_float_bytes)
qed

lemma to_bytes_count_ok:
  assumes "n \<le> 65535"
  shows "\<exists>bs. to_bytes (int n) 2 = Inr bs \<and> length bs = 2 \<and> decode_le bs = n"
proof -
  have "n div 256 < 256"
    using assms by simp
  then have "decode_le [of_nat (n mod 256), of_nat (n div 256) :: byte] = n"
    by (simp add: unat_of_nat)
  with to_bytes_count [OF assms] show ?thesis
    by simp
qed

lemma all_packable_replicate:
  "packable x \<Longrightarrow> packable y \<Longrightarrow> all_packable (replicate k (x, y))"
  by (simp add: all_packable_def list_all_iff)

lemma utf8_char_error: "utf8_char c = Inl e \<Longrightarrow> e = UnicodeEncodeError"
  by (simp add: utf8_char_def split: if_splits)

lemma encode_utf8_error: "encode_utf8 cs = Inl e \<Longrightarrow> e = UnicodeEncodeError"
  by (induction cs arbitrary: e) (auto split: sum.splits dest: utf8_char_error)

lemma double_to_float_error: "double_to_float d = Inl e \<Longrightarrow> e = OverflowError"
  by (simp add: double_to_float_def Let_def split: if_splits)

lemma pack_f_error: "pack_f v = Inl e \<Longrightarrow> e = OverflowError \<or> e = StructError"
  by (auto simp: pack_f_def to_float32_def split: sum.splits pynum.splits
      dest: double_to_float_error)

lemma pack_ff_error: "pack_ff x y = Inl e \<Longrightarrow> e = OverflowError \<or> e = StructError"
  by (auto simp: pack_ff_def split: sum.splits dest: pack_f_error)

lemma nodes_outcome_error:
  "nodes_outcome ns = Inl e \<Longrightarrow> e = OverflowError \<or> e = StructError"
  by (induction ns arbitrary: e) (auto split: sum.splits dest: pack_ff_error)

lemma straight_100_written:
  "written filename \<lparr>self = straight_100, files = fs\<rparr> = Some
     ([0x54, 0x52, 0x4B, 0x46, 0, 0, 0, 0, 1, 0, 0, 0]
      @ [0x31, 0x30, 0x30, 0x20, 0x6D, 0x20, 0x53, 0x74, 0x72, 0x61, 0x69, 0x67, 0x68, 0x74]
      @ replicate 102 0
      @ [2, 0]
      @ [0, 0, 0, 0, 0, 0, 0, 0]
      @ [0, 0, 0xC8, 0x42, 0, 0, 0, 0])"
proof -
  let ?t = "\<lparr>self = straight_100, files = fs\<rparr>"
  have n: "length (nodes (self ?t)) \<le> MAX_NODES"
    by (simp add: straight_100_count)
  have e: "encode_utf8 (name (self ?t)) = Inr
      [0x31, 0x30, 0x30, 0x20, 0x6D, 0x20, 0x53, 0x74, 0x72, 0x61, 0x69, 0x67, 0x68, 0x74]"
    by (simp add: straight_100_encodes)
  show ?thesis
    unfolding written_encodable [OF n e]
    by (simp add: straight_100_packs) (simp add: straight_100_fields)
qed

lemma straight_100_outcome:
  "outcome filename \<lparr>self = straight_100, files = fs\<rparr> = Inr ()"
proof -
  let ?t = "\<lparr>self = straight_100, files = fs\<rparr>"
  have n: "length (nodes (self ?t)) \<le> MAX_NODES"
    by (simp add: straight_100_count)
  have e: "encode_utf8 (name (self ?t)) = Inr
      [0x31, 0x30, 0x30, 0x20, 0x6D, 0x20, 0x53, 0x74, 0x72, 0x61, 0x69, 0x67, 0x68, 0x74]"
    by (simp add: straight_100_encodes)
  show ?thesis
    unfolding outcome_encodable [OF n e] by (simp add: straight_100_packs)
qed

text \<open>Which names have a UTF-8 encoding: those without a surrogate code point.\<close>

lemma utf8_char_ok:
  "(\<exists>b. utf8_char c = Inr b) \<longleftrightarrow> c < 0x110000 \<and> \<not> (0xD800 \<le> c \<and> c \<le> 0xDFFF)"
  by (auto simp: utf8_char_def)

lemma encode_utf8_ok:
  "(\<exists>enc. encode_utf8 cs = Inr enc)
   \<longleftrightarrow> (\<forall>c \<in> set cs. c < 0x110000 \<and> \<not> (0xD800 \<le> c \<and> c \<le> 0xDFFF))"
proof (induction cs)
  case Nil
  then show ?case by simp
next
  case (Cons c cs)
  have "(\<exists>enc. encode_utf8 (c # cs) = Inr enc)
      \<longleftrightarrow> (\<exists>b. utf8_char c = Inr b) \<and> (\<exists>enc. encode_utf8 cs = Inr enc)"
    by (auto split: sum.splits)
  then show ?case
    unfolding Cons.IH utf8_char_ok by simp
qed

section \<open>The cast to binary32 rounds to nearest\<close>

lemma bit_length_pos: "0 < m \<Longrightarrow> 0 < bit_length m"
  by (simp add: bit_length.simps [of m])

lemma bit_length_bounds:
  "0 < m \<Longrightarrow> 2 ^ (bit_length m - 1) \<le> m \<and> m < 2 ^ bit_length m"
proof (induction m rule: bit_length.induct)
  case (1 n)
  have bl: "bit_length n = Suc (bit_length (n div 2))"
    using "1.prems" by (simp add: bit_length.simps [of n])
  show ?case
  proof (cases "n div 2 = 0")
    case True
    then have "bit_length (n div 2) = 0" and "n = 1"
      using "1.prems" by (simp_all add: bit_length.simps [of 0] div_eq_0_iff)
    with bl show ?thesis
      by simp
  next
    case False
    then have pos: "0 < n div 2"
      by simp
    with "1.IH" "1.prems" have IH: "2 ^ (bit_length (n div 2) - 1) \<le> n div 2"
      "n div 2 < 2 ^ bit_length (n div 2)"
      by simp_all
    from bit_length_pos [OF pos] obtain b where b: "bit_length (n div 2) = Suc b"
      by (cases "bit_length (n div 2)") simp_all
    from IH b have "2 ^ b \<le> n div 2" and "n div 2 < 2 * 2 ^ b"
      by simp_all
    then have "2 * 2 ^ b \<le> n" and "n < 2 * (2 * 2 ^ b)"
      by linarith+
    with bl b show ?thesis
      by simp
  qed
qed

lemma round_half_even_cases:
  "(round_half_even m k = m div 2 ^ k \<and> 2 * (m mod 2 ^ k) \<le> 2 ^ k)
   \<or> (round_half_even m k = m div 2 ^ k + 1 \<and> 2 ^ k \<le> 2 * (m mod 2 ^ k))"
proof (cases "2 ^ k < 2 * (m mod 2 ^ k) \<or> (2 * (m mod 2 ^ k) = 2 ^ k \<and> odd (m div 2 ^ k))")
  case True
  then have "round_half_even m k = m div 2 ^ k + 1"
    by (simp add: round_half_even_def Let_def)
  with True show ?thesis
    by auto
next
  case False
  then have "round_half_even m k = m div 2 ^ k"
    by (simp add: round_half_even_def Let_def)
  with False show ?thesis
    by auto
qed

lemma round_half_even_nearest:
  "\<bar>int (round_half_even m k * 2 ^ k) - int m\<bar> \<le> \<bar>int (j * 2 ^ k) - int m\<bar>"
proof -
  define P q r where "P = (2 :: nat) ^ k" and "q = m div 2 ^ k" and "r = m mod 2 ^ k"
  have m: "m = q * P + r"
    unfolding P_def q_def r_def by (rule div_mult_mod_eq [symmetric])
  have r: "r < P"
    by (simp add: P_def r_def)
  have j: "j * P \<le> q * P \<or> q * P + P \<le> j * P"
  proof (cases "j \<le> q")
    case True
    then show ?thesis by simp
  next
    case False
    then have "Suc q \<le> j" by simp
    then have "Suc q * P \<le> j * P" by (rule mult_le_mono1)
    then show ?thesis by simp
  qed
  from round_half_even_cases [of m k]
  have "(round_half_even m k * P = q * P \<and> 2 * r \<le> P)
      \<or> (round_half_even m k * P = q * P + P \<and> P \<le> 2 * r)"
    by (auto simp: P_def q_def r_def)
  with m r j show ?thesis
    unfolding P_def [symmetric] by linarith
qed


lemma round_exp_ge: "emin \<le> round_exp p emin m e"
  by (simp add: round_exp_def)

lemma round_exp_fits: "bit_length m + e \<le> p + round_exp p emin m e"
  by (simp add: round_exp_def)

lemma round_exp_normal:
  "emin < round_exp p emin m e \<Longrightarrow> bit_length m + e = p + round_exp p emin m e"
  by (simp add: round_exp_def max_def split: if_splits)

lemma round_sig_le:
  assumes "0 < m"
  shows "round_sig p emin m e \<le> 2 ^ p"
proof -
  define E where "E = round_exp p emin m e"
  have fits: "bit_length m + e \<le> p + E"
    unfolding E_def by (rule round_exp_fits)
  have m: "m < 2 ^ bit_length m"
    using bit_length_bounds [OF assms] by simp
  show ?thesis
  proof (cases "E \<le> e")
    case True
    then have "bit_length m + (e - E) \<le> p"
      using fits by simp
    then have le: "(2 :: nat) ^ (bit_length m + (e - E)) \<le> 2 ^ p"
      by (rule power_increasing) simp
    have "m * 2 ^ (e - E) \<le> 2 ^ bit_length m * 2 ^ (e - E)"
      using m by (intro mult_le_mono1) simp
    also have "\<dots> = 2 ^ (bit_length m + (e - E))"
      by (simp only: power_add)
    also note le
    finally have "m * 2 ^ (e - E) \<le> 2 ^ p" .
    with True show ?thesis
      by (simp add: round_sig_def E_def [symmetric])
  next
    case False
    define k where "k = E - e"
    have "bit_length m \<le> p + k"
      using fits False by (simp add: k_def)
    then have "(2 :: nat) ^ bit_length m \<le> 2 ^ (p + k)"
      by (rule power_increasing) simp
    with m have "m < 2 ^ p * 2 ^ k"
      by (simp add: power_add)
    then have "m div 2 ^ k < 2 ^ p"
      by (simp add: less_mult_imp_div_less)
    with round_half_even_cases [of m k] have "round_half_even m k \<le> 2 ^ p"
      by auto
    with False show ?thesis
      by (simp add: round_sig_def E_def [symmetric] k_def)
  qed
qed

lemma round_sig_ge:
  assumes "0 < m" and "0 < p" and "emin < round_exp p emin m e"
  shows "2 ^ (p - 1) \<le> round_sig p emin m e"
proof -
  define E where "E = round_exp p emin m e"
  have eq: "bit_length m + e = p + E"
    unfolding E_def using assms(3) by (rule round_exp_normal)
  have m: "2 ^ (bit_length m - 1) \<le> m"
    using bit_length_bounds [OF assms(1)] by simp
  have bl: "0 < bit_length m"
    using assms(1) by (rule bit_length_pos)
  show ?thesis
  proof (cases "E \<le> e")
    case True
    then have "p - 1 = (bit_length m - 1) + (e - E)"
      using eq bl assms(2) by simp
    then have "(2 :: nat) ^ (p - 1) = 2 ^ (bit_length m - 1) * 2 ^ (e - E)"
      by (simp add: power_add)
    also have "\<dots> \<le> m * 2 ^ (e - E)"
      using m by simp
    finally show ?thesis
      using True by (simp add: round_sig_def E_def [symmetric])
  next
    case False
    define k where "k = E - e"
    have "bit_length m - 1 = (p - 1) + k"
      using eq False assms(2) by (simp add: k_def)
    then have "(2 :: nat) ^ (p - 1) * 2 ^ k = 2 ^ (bit_length m - 1)"
      by (simp add: power_add)
    also have "\<dots> \<le> m"
      by (rule m)
    finally have "2 ^ (p - 1) \<le> m div 2 ^ k"
      by (simp add: less_eq_div_iff_mult_less_eq)
    with round_half_even_cases [of m k] have "2 ^ (p - 1) \<le> round_half_even m k"
      by auto
    with False show ?thesis
      by (simp add: round_sig_def E_def [symmetric] k_def)
  qed
qed

lemma abs_diff_scale:
  fixes a b c t :: int
  assumes "\<bar>a - b\<bar> \<le> \<bar>c - b\<bar>" and "0 \<le> t"
  shows "\<bar>a * t - b * t\<bar> \<le> \<bar>c * t - b * t\<bar>"
proof -
  have "\<bar>a * t - b * t\<bar> = \<bar>a - b\<bar> * t" and "\<bar>c * t - b * t\<bar> = \<bar>c - b\<bar> * t"
    using assms(2) by (simp_all add: abs_mult flip: left_diff_distrib)
  with assms show ?thesis
    by (simp add: mult_right_mono)
qed

lemma round_sig_nearest:
  "\<bar>int (round_sig p emin m e * 2 ^ round_exp p emin m e) - int (m * 2 ^ e)\<bar>
   \<le> \<bar>int (j * 2 ^ round_exp p emin m e) - int (m * 2 ^ e)\<bar>"
proof -
  define E where "E = round_exp p emin m e"
  show ?thesis
  proof (cases "E \<le> e")
    case True
    then have "m * 2 ^ (e - E) * 2 ^ E = m * 2 ^ e"
      by (simp add: mult.assoc flip: power_add)
    with True have eq: "round_sig p emin m e * 2 ^ E = m * 2 ^ e"
      by (simp add: round_sig_def E_def [symmetric])
    show ?thesis
      unfolding E_def [symmetric] eq by simp
  next
    case False
    define k where "k = E - e"
    have E: "(2 :: nat) ^ E = 2 ^ k * 2 ^ e"
      using False by (simp add: k_def flip: power_add)
    have "\<bar>int (round_half_even m k * 2 ^ k) * int (2 ^ e) - int m * int (2 ^ e)\<bar>
        \<le> \<bar>int (j * 2 ^ k) * int (2 ^ e) - int m * int (2 ^ e)\<bar>"
      by (intro abs_diff_scale round_half_even_nearest) simp
    then have "\<bar>int (round_half_even m k * 2 ^ k * 2 ^ e) - int (m * 2 ^ e)\<bar>
        \<le> \<bar>int (j * 2 ^ k * 2 ^ e) - int (m * 2 ^ e)\<bar>"
      by (simp only: of_nat_mult)
    with False show ?thesis
      by (simp add: round_sig_def E_def [symmetric] k_def [symmetric] E mult.assoc)
  qed
qed

lemma round_exp_floor:
  assumes "0 < m" and "0 < p" and "emin < round_exp p emin m e"
  shows "2 ^ (p - 1) * 2 ^ round_exp p emin m e \<le> m * 2 ^ e"
proof -
  have "bit_length m + e = p + round_exp p emin m e"
    using assms(3) by (rule round_exp_normal)
  moreover have "0 < bit_length m"
    using assms(1) by (rule bit_length_pos)
  ultimately have "(p - 1) + round_exp p emin m e = (bit_length m - 1) + e"
    using assms(2) by simp
  then have "(2 :: nat) ^ (p - 1) * 2 ^ round_exp p emin m e = 2 ^ (bit_length m - 1) * 2 ^ e"
    by (simp flip: power_add)
  also have "\<dots> \<le> m * 2 ^ e"
    using bit_length_bounds [OF assms(1)] by simp
  finally show ?thesis .
qed

lemma field_decode:
  fixes h :: nat
  assumes "0 < h" and "M \<le> 2 * h" and "0 < a \<Longrightarrow> h \<le> M" and "mag = a * h + M"
  shows "(if mag div h = 0 then mag mod h else (h + mag mod h) * 2 ^ (mag div h - 1))
         = M * 2 ^ a"
proof -
  consider (sub) "M < h" | (norm) "h \<le> M" "M < 2 * h" | (carry) "M = 2 * h"
    using assms(2) by linarith
  then show ?thesis
  proof cases
    case sub
    with assms(3) have "a = 0"
      by (cases "0 < a") simp_all
    with sub assms(4) show ?thesis
      by simp
  next
    case norm
    define f where "f = M - h"
    have f: "M = h + f" "f < h"
      using norm by (simp_all add: f_def)
    then have "mag = Suc a * h + f"
      using assms(4) by simp
    with f have "mag div h = Suc a" and "mag mod h = f"
      by (simp_all del: mult_Suc)
    with f show ?thesis
      by simp
  next
    case carry
    then have "mag = Suc (Suc a) * h + 0"
      using assms(4) by simp
    then have "mag div h = Suc (Suc a)" and "mag mod h = 0"
      using assms(1) by simp_all
    with carry show ?thesis
      by simp
  qed
qed

lemma flt_fields:
  assumes "s \<le> 1" and "mag < 2 ^ 31"
  shows "flt_sign (of_nat (s * 2 ^ 31 + mag)) = s"
    and "flt_exp (of_nat (s * 2 ^ 31 + mag)) = mag div 2 ^ 23"
    and "flt_frac (of_nat (s * 2 ^ 31 + mag)) = mag mod 2 ^ 23"
proof -
  have "s * 2 ^ 31 + mag < 2 ^ 32"
    using assms by (cases "s = 0") simp_all
  then have "unat (of_nat (s * 2 ^ 31 + mag) :: 32 word) = s * 2 ^ 31 + mag"
    by (intro of_nat_inverse [OF refl]) simp
  then have u: "unat (of_nat (s * 2 ^ 31 + mag) :: 32 word) = mag + s * 2 ^ 31"
    by (simp only: add.commute)
  have split: "mag + s * 2 ^ 31 = mag + (s * 2 ^ 8) * 2 ^ 23"
    by simp
  have x: "mag div 2 ^ 23 < 2 ^ 8"
    using assms(2) by (intro less_mult_imp_div_less) simp
  have "(mag + s * 2 ^ 31) div 2 ^ 31 = s + mag div 2 ^ 31"
    by (rule div_mult_self1) simp
  with assms(2) show "flt_sign (of_nat (s * 2 ^ 31 + mag)) = s"
    unfolding flt_sign_def u by simp
  have "(mag + s * 2 ^ 31) div 2 ^ 23 = s * 2 ^ 8 + mag div 2 ^ 23"
    unfolding split by (rule div_mult_self1) simp
  moreover have "(mag div 2 ^ 23 + s * 2 ^ 8) mod 2 ^ 8 = mag div 2 ^ 23"
    using x by (simp only: mod_mult_self1 mod_less)
  ultimately show "flt_exp (of_nat (s * 2 ^ 31 + mag)) = mag div 2 ^ 23"
    unfolding flt_exp_def u by (simp only: add.commute)
  have "(mag + s * 2 ^ 31) mod 2 ^ 23 = mag mod 2 ^ 23"
    unfolding split by (rule mod_mult_self1)
  then show "flt_frac (of_nat (s * 2 ^ 31 + mag)) = mag mod 2 ^ 23"
    unfolding flt_frac_def u .
qed

lemma dbl_sign_le: "dbl_sign d \<le> 1"
proof -
  have "unat d < 2 ^ 64"
    using unsigned_less [of d, where ?'a = nat] by simp
  then show ?thesis
    by (simp add: dbl_sign_def)
qed

lemma flt_units_repr:
  "\<exists>M E. flt_units v = M * 2 ^ E \<and> M < 2 ^ 24 \<and> 925 \<le> E"
proof (cases "flt_exp v = 0")
  case True
  have "flt_frac v < 2 ^ 24"
    by (simp add: flt_frac_def)
  moreover have "flt_units v = flt_frac v * 2 ^ 925"
    unfolding flt_units_def using True by (rule if_P)
  ultimately show ?thesis
    by (intro exI [of _ "flt_frac v"] exI [of _ 925]) simp
next
  case False
  have "flt_frac v < 2 ^ 23"
    by (simp add: flt_frac_def)
  then have "2 ^ 23 + flt_frac v < 2 ^ 24"
    by simp
  moreover have "flt_units v = (2 ^ 23 + flt_frac v) * 2 ^ (flt_exp v - 1) * 2 ^ 925"
    unfolding flt_units_def using False by (rule if_not_P)
  then have "flt_units v = (2 ^ 23 + flt_frac v) * 2 ^ (flt_exp v - 1 + 925)"
    by (simp only: power_add mult.assoc)
  ultimately show ?thesis
    by (intro exI [of _ "2 ^ 23 + flt_frac v"] exI [of _ "flt_exp v - 1 + 925"]) simp
qed

lemma round_pack_float_units:
  assumes "0 < m"
  shows "(if round_pack 24 925 m e div 2 ^ 23 = 0 then round_pack 24 925 m e mod 2 ^ 23
          else (2 ^ 23 + round_pack 24 925 m e mod 2 ^ 23)
               * 2 ^ (round_pack 24 925 m e div 2 ^ 23 - 1)) * 2 ^ 925
         = round_sig 24 925 m e * 2 ^ round_exp 24 925 m e"
proof -
  define E M a where "E = round_exp 24 925 m e" and "M = round_sig 24 925 m e"
    and "a = E - 925"
  have E: "925 \<le> E"
    unfolding E_def by (rule round_exp_ge)
  have mag: "round_pack 24 925 m e = a * 2 ^ 23 + M"
    using assms by (simp add: round_pack_def E_def M_def a_def)
  have M: "M \<le> 2 * 2 ^ 23"
    using round_sig_le [OF assms, of 24 925 e] by (simp add: M_def)
  have M': "2 ^ 23 \<le> M" if "0 < a"
  proof -
    from that have "925 < round_exp 24 925 m e"
      by (simp add: a_def E_def)
    from round_sig_ge [OF assms _ this] show ?thesis
      by (simp add: M_def)
  qed
  have "(if round_pack 24 925 m e div 2 ^ 23 = 0 then round_pack 24 925 m e mod 2 ^ 23
          else (2 ^ 23 + round_pack 24 925 m e mod 2 ^ 23)
               * 2 ^ (round_pack 24 925 m e div 2 ^ 23 - 1)) = M * 2 ^ a"
    by (rule field_decode [OF _ M M' mag]) simp_all
  moreover have "a + 925 = E"
    using E by (simp add: a_def)
  then have "M * 2 ^ a * 2 ^ 925 = M * 2 ^ E"
    by (simp only: mult.assoc flip: power_add)
  ultimately show ?thesis
    by (simp only: E_def M_def)
qed

lemma round_pack_float_nearest:
  fixes w :: "32 word"
  assumes mag: "round_pack 24 925 m e < 0x7F800000" and s: "s \<le> 1"
    and w: "w = of_nat (s * 2 ^ 31 + round_pack 24 925 m e)"
  shows "flt_sign w = s \<and> flt_exp w \<noteq> 255
         \<and> (\<forall>v. \<bar>int (flt_units w) - int (m * 2 ^ e)\<bar>
                 \<le> \<bar>int (flt_units v) - int (m * 2 ^ e)\<bar>)"
proof -
  define g where "g = round_pack 24 925 m e"
  have g: "g < 2 ^ 31" and g': "g < 255 * 2 ^ 23"
    using mag by (simp_all add: g_def)
  have w': "w = of_nat (s * 2 ^ 31 + g)"
    using w by (simp only: g_def)
  have sign: "flt_sign w = s" and ex: "flt_exp w = g div 2 ^ 23"
    and fr: "flt_frac w = g mod 2 ^ 23"
    unfolding w' by (rule flt_fields [OF s g])+
  have "g div 2 ^ 23 < 255"
    using g' by (intro less_mult_imp_div_less) simp
  with ex have fin: "flt_exp w \<noteq> 255"
    by simp
  have units: "flt_units w
      = (if g div 2 ^ 23 = 0 then g mod 2 ^ 23
         else (2 ^ 23 + g mod 2 ^ 23) * 2 ^ (g div 2 ^ 23 - 1)) * 2 ^ 925"
    unfolding flt_units_def ex fr by (simp only: if_distrib [of "\<lambda>x. x * 2 ^ 925"])
  have near: "\<bar>int (flt_units w) - int (m * 2 ^ e)\<bar> \<le> \<bar>int (flt_units v) - int (m * 2 ^ e)\<bar>"
    for v
  proof (cases "m = 0")
    case True
    then have "g = 0"
      by (simp add: g_def round_pack_def)
    with units True show ?thesis
      by simp
  next
    case False
    then have m: "0 < m"
      by simp
    define E M where "E = round_exp 24 925 m e" and "M = round_sig 24 925 m e"
    have R: "flt_units w = M * 2 ^ E"
      unfolding units g_def E_def M_def by (rule round_pack_float_units [OF m])
    from flt_units_repr [of v] obtain Mv Ev
      where V: "flt_units v = Mv * 2 ^ Ev" and Mv: "Mv < 2 ^ 24" and Ev: "925 \<le> Ev"
      by blast
    show ?thesis
    proof (cases "E \<le> Ev")
      case True
      then have "flt_units v = (Mv * 2 ^ (Ev - E)) * 2 ^ E"
        unfolding V by (simp add: mult.assoc flip: power_add)
      then show ?thesis
        unfolding R E_def M_def using round_sig_nearest [of 24 925 m e "Mv * 2 ^ (Ev - E)"]
        by (simp only: E_def)
    next
      case False
      then have lt: "Ev < E"
        by simp
      with Ev have "925 < round_exp 24 925 m e"
        by (simp add: E_def)
      from round_exp_floor [OF m _ this] have L: "2 ^ 23 * 2 ^ E \<le> m * 2 ^ e"
        by (simp add: E_def)
      from lt obtain k where k: "E = Suc (Ev + k)"
        by (metis less_iff_Suc_add)
      have "Mv * 2 ^ Ev \<le> 2 ^ 24 * 2 ^ Ev"
        using Mv by (intro mult_le_mono1) simp
      also have "\<dots> \<le> 2 ^ 24 * (2 ^ Ev * 2 ^ k)"
        by simp
      also have "\<dots> = 2 ^ 23 * 2 ^ E"
        by (simp add: k power_add)
      finally have VL: "flt_units v \<le> 2 ^ 23 * 2 ^ E"
        by (simp only: V)
      from round_sig_nearest [of 24 925 m e "2 ^ 23"]
      have "\<bar>int (flt_units w) - int (m * 2 ^ e)\<bar> \<le> \<bar>int (2 ^ 23 * 2 ^ E) - int (m * 2 ^ e)\<bar>"
        by (simp only: R E_def M_def)
      with L VL show ?thesis
        by linarith
    qed
  qed
  from sign fin near show ?thesis
    by blast
qed

text \<open>
  The cast of a finite double that does not overflow is the IEEE 754 conversion in the
  default rounding mode: the result has the sign of the double, and no finite float is
  nearer to it.
\<close>

theorem double_to_float_nearest:
  assumes "dbl_exp d \<noteq> 2047" and "double_to_float d = Inr w"
  shows "nearest_float32 d w"
proof -
  define m e where "m = (if dbl_exp d = 0 then dbl_frac d else 2 ^ 52 + dbl_frac d)"
    and "e = (if dbl_exp d = 0 then 0 else dbl_exp d - 1)"
  have units: "dbl_units d = m * 2 ^ e"
    by (simp add: dbl_units_def m_def e_def)
  have mag: "round_pack 24 925 m e < 0x7F800000"
    and w: "w = of_nat (dbl_sign d * 2 ^ 31 + round_pack 24 925 m e)"
    using assms by (auto simp: double_to_float_def Let_def m_def e_def split: if_splits)
  from round_pack_float_nearest [OF mag dbl_sign_le w] show ?thesis
    unfolding nearest_float32_def units by blast
qed

text \<open>In particular a double that is a float is cast to itself.\<close>

lemma double_to_float_exact:
  assumes "dbl_exp d \<noteq> 2047" and "double_to_float d = Inr w"
    and "flt_exp v \<noteq> 255" and "flt_units v = dbl_units d"
  shows "flt_units w = dbl_units d"
  using double_to_float_nearest [OF assms(1,2)] assms(3,4)
  by (fastforce simp: nearest_float32_def)

lemma flt_units_100: "flt_sign 0x42C80000 = 0 \<and> flt_units 0x42C80000 = 100 * 2 ^ 1074"
  by (simp add: flt_sign_def flt_units_def flt_exp_def flt_frac_def)

lemma flt_units_0: "flt_sign 0 = 0 \<and> flt_units 0 = 0"
  by (simp add: flt_sign_def flt_units_def flt_exp_def flt_frac_def)

lemma float32_le_pattern:
  assumes "float32_le v bs"
  shows "to_float32 v = Inr (of_nat (decode_le bs))"
proof -
  from assms obtain w where w: "to_float32 v = Inr w" and "decode_le bs = unat w"
    by (auto simp: float32_le_def split: sum.splits)
  then show ?thesis
    by simp
qed

text \<open>
  The four bytes written for a finite \<^verbatim>\<open>float\<close> coordinate are the float nearest to it.
\<close>

theorem float32_le_nearest:
  assumes "float32_le (PyFloat d) (byte_range out i (i + 4))" and "dbl_exp d \<noteq> 2047"
  shows "nearest_float32 d (float_at out i)"
proof -
  from float32_le_pattern [OF assms(1)] have "double_to_float d = Inr (float_at out i)"
    by (simp add: to_float32_def float_at_def)
  with assms(2) show ?thesis
    by (rule double_to_float_nearest)
qed

lemma round_half_even_tie:
  assumes "2 * m = 2 * (round_half_even m k * 2 ^ k) + 2 ^ k"
  shows "even (round_half_even m k)"
proof -
  define P q r where "P = (2 :: nat) ^ k" and "q = m div 2 ^ k" and "r = m mod 2 ^ k"
  have m: "m = q * P + r"
    unfolding P_def q_def r_def by (rule div_mult_mod_eq [symmetric])
  have r: "r < P"
    by (simp add: P_def r_def)
  show ?thesis
  proof (cases "2 ^ k < 2 * (m mod 2 ^ k) \<or> (2 * (m mod 2 ^ k) = 2 ^ k \<and> odd (m div 2 ^ k))")
    case True
    then have "round_half_even m k = q + 1"
      by (simp add: round_half_even_def Let_def q_def)
    with assms have "2 * m = 2 * ((q + 1) * P) + P"
      by (simp add: P_def)
    with m r show ?thesis
      by (simp add: algebra_simps)
  next
    case False
    then have eq: "round_half_even m k = q"
      by (simp add: round_half_even_def Let_def q_def)
    with assms have "2 * m = 2 * (q * P) + P"
      by (simp add: P_def)
    with m have "2 * r = P"
      by simp
    with False have "even q"
      by (simp add: P_def q_def r_def)
    with eq show ?thesis
      by simp
  qed
qed


lemma round_exp_ceil:
  assumes "0 < m"
  shows "m * 2 ^ e < 2 ^ p * 2 ^ round_exp p emin m e"
proof -
  have "m * 2 ^ e < 2 ^ bit_length m * 2 ^ e"
    using bit_length_bounds [OF assms] by simp
  also have "\<dots> = 2 ^ (bit_length m + e)"
    by (simp only: power_add)
  also have "\<dots> \<le> 2 ^ (p + round_exp p emin m e)"
    by (rule power_increasing [OF round_exp_fits]) simp
  finally show ?thesis
    by (simp only: power_add)
qed

lemma round_sig_exact:
  "round_exp p emin m e \<le> e \<Longrightarrow>
   round_sig p emin m e * 2 ^ round_exp p emin m e = m * 2 ^ e"
  by (simp add: round_sig_def mult.assoc flip: power_add)

lemma round_sig_tie:
  assumes "2 * (m * 2 ^ e)
      = 2 * (round_sig p emin m e * 2 ^ round_exp p emin m e) + 2 ^ round_exp p emin m e"
  shows "even (round_sig p emin m e)"
proof (cases "round_exp p emin m e \<le> e")
  case True
  from assms round_sig_exact [OF True] show ?thesis
    by simp
next
  case False
  define k where "k = round_exp p emin m e - e"
  have E: "(2 :: nat) ^ round_exp p emin m e = 2 ^ k * 2 ^ e"
    using False by (simp add: k_def flip: power_add)
  have M: "round_sig p emin m e = round_half_even m k"
    using False by (simp add: round_sig_def k_def)
  from assms have "(2 * m) * 2 ^ e = (2 * (round_half_even m k * 2 ^ k) + 2 ^ k) * 2 ^ e"
    unfolding E M by (simp add: algebra_simps)
  then have "2 * m = 2 * (round_half_even m k * 2 ^ k) + 2 ^ k"
    by simp
  then show ?thesis
    unfolding M by (rule round_half_even_tie)
qed


lemma round_pack_float_overflow:
  assumes "0 < m"
  shows "0x7F800000 \<le> round_pack 24 925 m e \<longleftrightarrow> (2 ^ 25 - 1) * 2 ^ 1177 \<le> m * 2 ^ e"
proof -
  define E M X G T :: nat where "E = round_exp 24 925 m e" and "M = round_sig 24 925 m e"
    and "X = m * 2 ^ e" and "G = 2 ^ E" and "T = (2 ^ 25 - 1) * 2 ^ 1177"
  have E: "925 \<le> E"
    unfolding E_def by (rule round_exp_ge)
  have G: "0 < G"
    by (simp add: G_def)
  have mag: "round_pack 24 925 m e = (E - 925) * 8388608 + M"
    using assms by (simp add: round_pack_def E_def M_def)
  have Mle: "M \<le> 16777216"
    using round_sig_le [OF assms, of 24 925 e] by (simp add: M_def)
  have Mge: "8388608 \<le> M" if "925 < E"
    using round_sig_ge [OF assms, of 24 925 e] that by (simp add: M_def E_def)
  have floor: "8388608 * G \<le> X" if "925 < E"
    using round_exp_floor [OF assms, of 24 925 e] that by (simp add: G_def E_def X_def)
  have ceil: "X < 16777216 * G"
    using round_exp_ceil [OF assms, of e 24 925] by (simp add: G_def E_def X_def)
  have near: "\<bar>int (M * G) - int X\<bar> \<le> \<bar>int (j * G) - int X\<bar>" for j
    unfolding M_def G_def E_def X_def by (rule round_sig_nearest)
  consider (low) "E < 1178" | (high) "1178 < E" | (edge) "E = 1178"
    by linarith
  then have "255 * 8388608 \<le> (E - 925) * 8388608 + M \<longleftrightarrow> T \<le> X"
  proof cases
    case low
    then have "E - 925 \<le> 252"
      by simp
    then have "(E - 925) * 8388608 \<le> 252 * 8388608"
      by (rule mult_le_mono1)
    with Mle have l: "\<not> 255 * 8388608 \<le> (E - 925) * 8388608 + M"
      by simp
    from low have "E \<le> 1177"
      by simp
    then have "G \<le> 2 ^ 1177"
      unfolding G_def by (intro power_increasing) simp_all
    with ceil have "X < 16777216 * 2 ^ 1177"
      by linarith
    then have "\<not> T \<le> X"
      by (simp add: T_def)
    with l show ?thesis
      by simp
  next
    case high
    then have "254 \<le> E - 925" and "925 < E"
      by simp_all
    then have "254 * 8388608 \<le> (E - 925) * 8388608" and "8388608 \<le> M"
      by (simp_all add: Mge)
    then have l: "255 * 8388608 \<le> (E - 925) * 8388608 + M"
      by linarith
    from high have "1179 \<le> E"
      by simp
    then have "(2 :: nat) ^ 1179 \<le> G"
      unfolding G_def by (intro power_increasing) simp_all
    with floor [OF \<open>925 < E\<close>] have "8388608 * 2 ^ 1179 \<le> X"
      by linarith
    then have "T \<le> X"
      by (simp add: T_def)
    with l show ?thesis
      by simp
  next
    case edge
    have TG: "2 * T = 33554431 * G"
      by (simp add: T_def G_def edge)
    have a: "(E - 925) * 8388608 = 253 * 8388608"
      by (simp add: edge)
    show ?thesis
    proof
      assume "255 * 8388608 \<le> (E - 925) * 8388608 + M"
      with a Mle have "M = 16777216"
        by linarith
      with near [of 16777215] have "\<bar>int (16777216 * G) - int X\<bar> \<le> \<bar>int (16777215 * G) - int X\<bar>"
        by simp
      with TG G ceil show "T \<le> X"
        by linarith
    next
      assume T: "T \<le> X"
      have "16777216 \<le> M"
      proof (rule ccontr)
        assume "\<not> 16777216 \<le> M"
        then have M: "M \<le> 16777215"
          by simp
        then have MG: "M * G \<le> 16777215 * G"
          by (rule mult_le_mono1)
        from near [of 16777216] MG TG G ceil T
        have tie: "2 * X = 2 * (M * G) + G" and "M * G = 16777215 * G"
          by linarith+
        with G have "M = 16777215"
          by simp
        moreover have "even M"
          unfolding M_def using tie [unfolded X_def M_def G_def E_def] by (rule round_sig_tie)
        ultimately show False
          by simp
      qed
      with a show "255 * 8388608 \<le> (E - 925) * 8388608 + M"
        by linarith
    qed
  qed
  then show ?thesis
    unfolding mag T_def X_def by simp
qed


text \<open>
  Which \<^verbatim>\<open>float\<close> coordinates \<^verbatim>\<open>struct.pack\<close> refuses: the finite doubles of magnitude
  \<open>2 ^ 128 - 2 ^ 103\<close> or more, that is \<open>(2 ^ 25 - 1) * 2 ^ 1177\<close> units. This is half
  a step above the largest float; from there on the nearest value is the infinity.
\<close>

theorem double_to_float_overflow:
  "double_to_float d = Inl OverflowError
   \<longleftrightarrow> dbl_exp d \<noteq> 2047 \<and> (2 ^ 25 - 1) * 2 ^ 1177 \<le> dbl_units d"
proof (cases "dbl_exp d = 2047")
  case True
  then show ?thesis
    by (simp add: double_to_float_def Let_def)
next
  case False
  define m e where "m = (if dbl_exp d = 0 then dbl_frac d else 2 ^ 52 + dbl_frac d)"
    and "e = (if dbl_exp d = 0 then 0 else dbl_exp d - 1)"
  have units: "dbl_units d = m * 2 ^ e"
    by (simp add: dbl_units_def m_def e_def)
  have cast: "double_to_float d = Inl OverflowError \<longleftrightarrow> 0x7F800000 \<le> round_pack 24 925 m e"
    using False by (simp add: double_to_float_def Let_def m_def e_def)
  show ?thesis
  proof (cases "m = 0")
    case True
    with cast units False show ?thesis
      by (simp add: round_pack_def)
  next
    case False
    then have "0 < m"
      by simp
    from round_pack_float_overflow [OF this, of e] cast units \<open>dbl_exp d \<noteq> 2047\<close>
    show ?thesis
      by (simp only: simp_thms)
  qed
qed

theorem packable_float:
  "packable (PyFloat d) \<longleftrightarrow> dbl_exp d = 2047 \<or> dbl_units d < (2 ^ 25 - 1) * 2 ^ 1177"
proof -
  have "packable (PyFloat d) \<longleftrightarrow> double_to_float d \<noteq> Inl OverflowError"
    by (auto simp: packable_def pack_f_def to_float32_def split: sum.splits
        dest: double_to_float_error)
  then show ?thesis
    unfolding double_to_float_overflow by (simp add: not_le)
qed

text \<open>An \<^verbatim>\<open>int\<close> coordinate is accepted when its double is.\<close>

lemma packable_int:
  "packable (PyInt n) \<longleftrightarrow> (\<exists>d. int_to_double n = Inr d \<and> packable (PyFloat d))"
  by (auto simp: packable_def pack_f_def to_float32_def split: sum.splits)

section \<open>The claims\<close>

text \<open>
  C1, as amended. A Track with at most 65535 nodes whose name has a UTF-8 encoding (no
  lone surrogate) and whose coordinates \<^verbatim>\<open>struct.pack\<close> accepts for format \<^verbatim>\<open>f\<close>:
  \<^verbatim>\<open>write_trk\<close> returns normally and the destination holds exactly 130 + 8 * N bytes,
  whatever the length of the name.
\<close>

theorem write_trk_output_size:
  assumes "length (nodes (self s)) \<le> 65535"
    and "encode_utf8 (name (self s)) = Inr enc"
    and "all_packable (nodes (self s))"
  shows "outcome filename s = Inr ()
         \<and> (\<exists>out. written filename s = Some out
               \<and> length out = 130 + 8 * length (nodes (self s)))"
proof -
  have n: "length (nodes (self s)) \<le> MAX_NODES"
    using assms(1) by (simp add: MAX_NODES_def)
  have "outcome filename s = Inr ()"
    using outcome_encodable [OF n assms(2)] nodes_outcome_packable [OF assms(3)] by simp
  moreover have "\<exists>out. written filename s = Some out
      \<and> length out = 130 + 8 * length (nodes (self s))"
    using written_encodable [OF n assms(2), of filename]
      length_nodes_written_packable [OF assms(3)] by simp
  ultimately show ?thesis ..
qed

theorem write_trk_output_size_witness:
  "length (nodes (self \<lparr>self = straight_100, files = Map.empty\<rparr>)) \<le> 65535
   \<and> encode_utf8 (name (self \<lparr>self = straight_100, files = Map.empty\<rparr>))
       = Inr [0x31, 0x30, 0x30, 0x20, 0x6D, 0x20, 0x53, 0x74, 0x72, 0x61, 0x69, 0x67, 0x68, 0x74]
   \<and> all_packable (nodes (self \<lparr>self = straight_100, files = Map.empty\<rparr>))
   \<and> outcome ''straight.trk'' \<lparr>self = straight_100, files = Map.empty\<rparr> = Inr ()
   \<and> (\<exists>out. written ''straight.trk'' \<lparr>self = straight_100, files = Map.empty\<rparr> = Some out
         \<and> length out = 146)"
proof -
  let ?t = "\<lparr>self = straight_100, files = (Map.empty :: string \<rightharpoonup> byte list)\<rparr>"
  have n: "length (nodes (self ?t)) \<le> 65535"
    by (simp add: straight_100_fields)
  have e: "encode_utf8 (name (self ?t))
     = Inr [0x31, 0x30, 0x30, 0x20, 0x6D, 0x20, 0x53, 0x74, 0x72, 0x61, 0x69, 0x67, 0x68, 0x74]"
    by (simp add: straight_100_encodes)
  have p: "all_packable (nodes (self ?t))"
    by (simp add: straight_100_fields all_packable_Cons packable_int_0 packable_int_100
        all_packable_def)
  from write_trk_output_size [OF n e p, of "''straight.trk''"] n e p show ?thesis
    by (simp add: straight_100_fields)
qed

text \<open>
  The claim as written fails. A Track of one node whose x coordinate is the float
  \<^verbatim>\<open>1e39\<close> (binary64 pattern 48078287F49C4A1D): \<^verbatim>\<open>struct.pack\<close> raises
  OverflowError after the header and the count are written, and the file has 130 bytes
  and not 138. A Track without nodes whose name is the lone surrogate U+D800:
  \<^verbatim>\<open>encode\<close> raises UnicodeEncodeError after \<^verbatim>\<open>open\<close>, and the file is empty.
\<close>

theorem write_trk_output_size_counterexample:
  "length (nodes (self \<lparr>self = \<lparr>name = [0x78], nodes = [(PyFloat 0x48078287F49C4A1D, PyFloat 0)]\<rparr>,
                        files = Map.empty\<rparr>)) \<le> 65535
   \<and> outcome ''x.trk''
        \<lparr>self = \<lparr>name = [0x78], nodes = [(PyFloat 0x48078287F49C4A1D, PyFloat 0)]\<rparr>,
         files = Map.empty\<rparr> = Inl OverflowError
   \<and> map_option length (written ''x.trk''
        \<lparr>self = \<lparr>name = [0x78], nodes = [(PyFloat 0x48078287F49C4A1D, PyFloat 0)]\<rparr>,
         files = Map.empty\<rparr>) = Some 130
   \<and> map_option length (written ''x.trk''
        \<lparr>self = \<lparr>name = [0x78], nodes = [(PyFloat 0x48078287F49C4A1D, PyFloat 0)]\<rparr>,
         files = Map.empty\<rparr>)
       \<noteq> Some (130 + 8 * length (nodes (self
            \<lparr>self = \<lparr>name = [0x78], nodes = [(PyFloat 0x48078287F49C4A1D, PyFloat 0)]\<rparr>,
             files = Map.empty\<rparr>)))
   \<and> outcome ''x.trk'' \<lparr>self = \<lparr>name = [0xD800], nodes = []\<rparr>, files = Map.empty\<rparr>
       = Inl UnicodeEncodeError
   \<and> written ''x.trk'' \<lparr>self = \<lparr>name = [0xD800], nodes = []\<rparr>, files = Map.empty\<rparr>
       = Some []"
proof -
  let ?a = "\<lparr>self = \<lparr>name = [0x78], nodes = [(PyFloat 0x48078287F49C4A1D, PyFloat 0)]\<rparr>,
             files = (Map.empty :: string \<rightharpoonup> byte list)\<rparr>"
  let ?b = "\<lparr>self = \<lparr>name = [0xD800], nodes = []\<rparr>,
             files = (Map.empty :: string \<rightharpoonup> byte list)\<rparr>"
  have na: "length (nodes (self ?a)) \<le> MAX_NODES" and nb: "length (nodes (self ?b)) \<le> MAX_NODES"
    by (simp_all add: MAX_NODES_def)
  have ea: "encode_utf8 (name (self ?a)) = Inr [0x78]"
    by (simp add: utf8_char_def)
  have eb: "encode_utf8 (name (self ?b)) = Inl UnicodeEncodeError"
    by (simp add: utf8_char_def)
  have "outcome ''x.trk'' ?a = Inl OverflowError"
    by (simp add: outcome_encodable [OF na ea] pack_ff_def pack_f_float_1e39)
  moreover have "map_option length (written ''x.trk'' ?a) = Some 130"
    by (simp add: written_encodable [OF na ea] pack_ff_def pack_f_float_1e39)
  moreover note outcome_unencodable [OF nb eb, of "''x.trk''"]
    written_unencodable [OF nb eb, of "''x.trk''"]
  ultimately show ?thesis
    by auto
qed

text \<open>
  C2. A Track with more than 65535 nodes: \<^verbatim>\<open>write_trk\<close> raises the ValueError of line 12
  (the specification's \<^verbatim>\<open>NodeCountExceeded\<close>) and the whole state is as before the call:
  no file is created, emptied or written, the destination included.
\<close>

theorem write_trk_node_count_exceeded:
  assumes "65535 < length (nodes (self s))"
  shows "write_trk filename s = (Inl ValueError, s)"
  using assms by (simp add: write_trk_def MAX_NODES_def)

text \<open>The theorem at a Track of 65536 nodes and a file system without the destination.\<close>

theorem write_trk_node_count_exceeded_witness:
  "65535 < length (nodes (self \<lparr>self = \<lparr>name = [], nodes = replicate 65536 (PyInt 0, PyInt 0)\<rparr>,
                                   files = Map.empty\<rparr>))
   \<and> write_trk ''straight.trk''
         \<lparr>self = \<lparr>name = [], nodes = replicate 65536 (PyInt 0, PyInt 0)\<rparr>, files = Map.empty\<rparr>
       = (Inl ValueError,
          \<lparr>self = \<lparr>name = [], nodes = replicate 65536 (PyInt 0, PyInt 0)\<rparr>, files = Map.empty\<rparr>)
   \<and> files (snd (write_trk ''straight.trk''
         \<lparr>self = \<lparr>name = [], nodes = replicate 65536 (PyInt 0, PyInt 0)\<rparr>, files = Map.empty\<rparr>))
        ''straight.trk'' = None"
proof -
  let ?s = "\<lparr>self = \<lparr>name = [], nodes = replicate 65536 (PyInt 0, PyInt 0)\<rparr>,
             files = (Map.empty :: string \<rightharpoonup> byte list)\<rparr>"
  have h: "65535 < length (nodes (self ?s))"
    by simp
  show ?thesis
    using h write_trk_node_count_exceeded [OF h, of "''straight.trk''"] by simp
qed

text \<open>
  C3, as amended. A Track with at most 65535 nodes whose name has a UTF-8 encoding and
  whose coordinates \<^verbatim>\<open>struct.pack\<close> accepts: after the 128-byte header the destination
  holds the node count as an unsigned 16-bit little-endian number (bytes 128 and 129),
  then the nodes in list order and nothing else. Node \<open>i\<close> takes the eight bytes from
  \<open>130 + 8 * i\<close>: four bytes whose little-endian number is the binary32 pattern of x,
  then four for y. The pattern is that of the C cast, which for a finite \<^verbatim>\<open>float\<close> is
  the nearest binary32 value (\<open>float32_le_nearest\<close>).
\<close>

theorem write_trk_count_and_nodes:
  assumes "length (nodes (self s)) \<le> 65535"
    and "encode_utf8 (name (self s)) = Inr enc"
    and "all_packable (nodes (self s))"
  shows "\<exists>out. written filename s = Some out
           \<and> length out = 130 + 8 * length (nodes (self s))
           \<and> decode_le (byte_range out 128 130) = length (nodes (self s))
           \<and> drop 130 out
               = concat (map (\<lambda>(x, y). float_bytes x @ float_bytes y) (nodes (self s)))
           \<and> (\<forall>i < length (nodes (self s)).
                 float32_le (fst (nodes (self s) ! i))
                   (byte_range out (130 + 8 * i) (134 + 8 * i))
                 \<and> float32_le (snd (nodes (self s) ! i))
                     (byte_range out (134 + 8 * i) (138 + 8 * i)))"
proof -
  let ?ns = "nodes (self s)"
  define h :: "byte list" where "h = [0x54, 0x52, 0x4B, 0x46, 0, 0, 0, 0, 1, 0, 0, 0]
        @ take 64 enc @ replicate (116 - min 64 (length enc)) 0"
  define c :: "byte list"
    where "c = [of_nat (length ?ns mod 256), of_nat (length ?ns div 256)]"
  let ?out = "h @ c @ nodes_written ?ns"
  have n: "length ?ns \<le> MAX_NODES"
    using assms(1) by (simp add: MAX_NODES_def)
  have out: "written filename s = Some ?out"
    unfolding h_def c_def by (rule written_encodable [OF n assms(2)])
  have lh: "length h = 128" and lc: "length c = 2"
    by (simp_all add: h_def c_def)
  have len: "length ?out = 130 + 8 * length ?ns"
    using length_nodes_written_packable [OF assms(3)] lh lc by simp
  have "length ?ns div 256 < 256"
    using assms(1) by simp
  then have "decode_le c = length ?ns"
    by (simp add: c_def unat_of_nat)
  moreover have "byte_range ?out 128 130 = c"
    using lh lc by (simp add: byte_range_def)
  ultimately have cnt: "decode_le (byte_range ?out 128 130) = length ?ns"
    by simp
  have d: "drop (130 + k) ?out = drop k (nodes_written ?ns)" for k
    using lh lc by simp
  have tail: "drop 130 ?out = concat (map (\<lambda>(x, y). float_bytes x @ float_bytes y) ?ns)"
    using d [of 0] nodes_written_packable [OF assms(3)] by simp
  have node: "float32_le (fst (?ns ! i)) (byte_range ?out (130 + 8 * i) (134 + 8 * i))
      \<and> float32_le (snd (?ns ! i)) (byte_range ?out (134 + 8 * i) (138 + 8 * i))"
    if i: "i < length ?ns" for i
  proof -
    have m: "?ns ! i \<in> set ?ns"
      using i by simp
    then have p: "packable (fst (?ns ! i))" "packable (snd (?ns ! i))"
      using assms(3) by (auto simp: all_packable_def list_all_iff)
    have "byte_range ?out (130 + 8 * i) (134 + 8 * i) = take 4 (drop (8 * i) (nodes_written ?ns))"
      unfolding byte_range_def d by simp
    moreover have "134 + 8 * i = 130 + (4 + 8 * i)"
      by simp
    then have "byte_range ?out (134 + 8 * i) (138 + 8 * i)
        = take 4 (drop (4 + 8 * i) (nodes_written ?ns))"
      unfolding byte_range_def by (simp only: d) simp
    ultimately show ?thesis
      using node_chunks [OF assms(3) i] float32_le_float_bytes p by simp
  qed
  from out len cnt tail node show ?thesis
    by blast
qed


theorem write_trk_count_and_nodes_witness:
  "length (nodes (self \<lparr>self = straight_100, files = Map.empty\<rparr>)) \<le> 65535
   \<and> encode_utf8 (name (self \<lparr>self = straight_100, files = Map.empty\<rparr>))
       = Inr [0x31, 0x30, 0x30, 0x20, 0x6D, 0x20, 0x53, 0x74, 0x72, 0x61, 0x69, 0x67, 0x68, 0x74]
   \<and> all_packable (nodes (self \<lparr>self = straight_100, files = Map.empty\<rparr>))
   \<and> (\<exists>out. written ''straight.trk'' \<lparr>self = straight_100, files = Map.empty\<rparr> = Some out
         \<and> length out = 146
         \<and> decode_le (byte_range out 128 130) = 2
         \<and> drop 130 out = [0, 0, 0, 0, 0, 0, 0, 0, 0, 0, 0xC8, 0x42, 0, 0, 0, 0]
         \<and> float32_le (PyInt 100) (byte_range out 138 142))"
proof -
  let ?t = "\<lparr>self = straight_100, files = (Map.empty :: string \<rightharpoonup> byte list)\<rparr>"
  have n: "length (nodes (self ?t)) \<le> 65535"
    by (simp add: straight_100_fields)
  have e: "encode_utf8 (name (self ?t))
     = Inr [0x31, 0x30, 0x30, 0x20, 0x6D, 0x20, 0x53, 0x74, 0x72, 0x61, 0x69, 0x67, 0x68, 0x74]"
    by (simp add: straight_100_encodes)
  have p: "all_packable (nodes (self ?t))"
    by (simp add: straight_100_fields all_packable_Cons packable_int_0 packable_int_100
        all_packable_def)
  from write_trk_count_and_nodes [OF n e p, of "''straight.trk''"] obtain out
    where out: "written ''straight.trk'' ?t = Some out"
      and len: "length out = 130 + 8 * length (nodes (self ?t))"
      and cnt: "decode_le (byte_range out 128 130) = length (nodes (self ?t))"
      and tail: "drop 130 out
        = concat (map (\<lambda>(x, y). float_bytes x @ float_bytes y) (nodes (self ?t)))"
      and node: "\<forall>i < length (nodes (self ?t)).
          float32_le (fst (nodes (self ?t) ! i)) (byte_range out (130 + 8 * i) (134 + 8 * i))
          \<and> float32_le (snd (nodes (self ?t) ! i)) (byte_range out (134 + 8 * i) (138 + 8 * i))"
    by blast
  have "(1 :: nat) < length (nodes (self ?t))"
    by (simp add: straight_100_fields)
  with node have "float32_le (fst (nodes (self ?t) ! 1))
      (byte_range out (130 + 8 * 1) (134 + 8 * 1))"
    by blast
  then have "float32_le (PyInt 100) (byte_range out 138 142)"
    by (simp add: straight_100_fields)
  moreover from len have "length out = 146"
    by (simp add: straight_100_fields)
  moreover from cnt have "decode_le (byte_range out 128 130) = 2"
    by (simp add: straight_100_fields)
  moreover from tail have "drop 130 out = [0, 0, 0, 0, 0, 0, 0, 0, 0, 0, 0xC8, 0x42, 0, 0, 0, 0]"
    by (simp add: straight_100_fields float_bytes_def pack_f_int_0 pack_f_int_100)
  ultimately show ?thesis
    using n e p out by blast
qed

text \<open>
  The claim as written fails. A Track of two nodes whose second x coordinate is the
  float \<^verbatim>\<open>1e39\<close>: the count field says 2, the first node follows it, and
  \<^verbatim>\<open>struct.pack\<close> raises OverflowError on the second. After the header the file holds
  ten bytes, the count and one node.
\<close>

theorem write_trk_count_and_nodes_counterexample:
  "length (nodes (self \<lparr>self = \<lparr>name = [], nodes = [(PyFloat 0, PyFloat 0),
                                        (PyFloat 0x48078287F49C4A1D, PyFloat 0)]\<rparr>,
                        files = Map.empty\<rparr>)) \<le> 65535
   \<and> outcome ''x.trk''
        \<lparr>self = \<lparr>name = [], nodes = [(PyFloat 0, PyFloat 0),
                                        (PyFloat 0x48078287F49C4A1D, PyFloat 0)]\<rparr>,
         files = Map.empty\<rparr> = Inl OverflowError
   \<and> map_option (drop 128) (written ''x.trk''
        \<lparr>self = \<lparr>name = [], nodes = [(PyFloat 0, PyFloat 0),
                                        (PyFloat 0x48078287F49C4A1D, PyFloat 0)]\<rparr>,
         files = Map.empty\<rparr>) = Some [2, 0, 0, 0, 0, 0, 0, 0, 0, 0]
   \<and> map_option (\<lambda>out. length (drop 130 out)) (written ''x.trk''
        \<lparr>self = \<lparr>name = [], nodes = [(PyFloat 0, PyFloat 0),
                                        (PyFloat 0x48078287F49C4A1D, PyFloat 0)]\<rparr>,
         files = Map.empty\<rparr>)
       \<noteq> Some (8 * length (nodes (self
            \<lparr>self = \<lparr>name = [], nodes = [(PyFloat 0, PyFloat 0),
                                            (PyFloat 0x48078287F49C4A1D, PyFloat 0)]\<rparr>,
             files = Map.empty\<rparr>)))"
proof -
  let ?a = "\<lparr>self = \<lparr>name = [], nodes = [(PyFloat 0, PyFloat 0),
                                        (PyFloat 0x48078287F49C4A1D, PyFloat 0)]\<rparr>,
             files = (Map.empty :: string \<rightharpoonup> byte list)\<rparr>"
  have n: "length (nodes (self ?a)) \<le> MAX_NODES"
    by (simp add: MAX_NODES_def)
  have e: "encode_utf8 (name (self ?a)) = Inr []"
    by simp
  have "outcome ''x.trk'' ?a = Inl OverflowError"
    by (simp add: outcome_encodable [OF n e] pack_ff_def pack_f_float_0 pack_f_float_1e39)
  moreover have "written ''x.trk'' ?a = Some
      (([0x54, 0x52, 0x4B, 0x46, 0, 0, 0, 0, 1, 0, 0, 0] @ replicate 116 0)
       @ [2, 0] @ [0, 0, 0, 0, 0, 0, 0, 0])"
    by (simp add: written_encodable [OF n e] pack_ff_def pack_f_float_0 pack_f_float_1e39)
  ultimately show ?thesis
    by simp
qed

text \<open>
  C4. When the name has a UTF-8 encoding \<open>enc\<close>, the header that lines 16 to 22 build
  holds, from byte 12 on, the first 64 bytes of \<open>enc\<close>, cut on a byte boundary whatever
  the code points are. If \<open>enc\<close> is longer than 64 bytes (or exactly 64), bytes 12 to 75
  are its first 64 bytes and bytes 76 to 127 are zero; if it is shorter, bytes 12 to
  \<open>11 + length enc\<close> are \<open>enc\<close> and all bytes from \<open>12 + length enc\<close> to 127 are zero.
  This header is the first 128 bytes of the destination whenever the Track passes the
  count check.
\<close>

theorem header_name_field:
  assumes "encode_utf8 (name (self s)) = Inr enc"
  shows "\<exists>h. make_header (name (self s)) = Inr h
           \<and> (64 \<le> length enc \<longrightarrow>
                byte_range h 12 76 = take 64 enc \<and> byte_range h 76 128 = replicate 52 0)
           \<and> (length enc < 64 \<longrightarrow>
                byte_range h 12 (12 + length enc) = enc
                \<and> byte_range h (12 + length enc) 128 = replicate (116 - length enc) 0)
           \<and> (length (nodes (self s)) \<le> 65535 \<longrightarrow>
                (\<exists>rest. written filename s = Some (h @ rest)))"
proof -
  let ?p = "[0x54, 0x52, 0x4B, 0x46, 0, 0, 0, 0, 1, 0, 0, 0] :: byte list"
  let ?v = "take 64 enc"
  let ?z = "replicate (116 - min 64 (length enc)) 0 :: byte list"
  let ?h = "?p @ ?v @ ?z"
  have p: "length ?p = 12"
    by simp
  have h: "make_header (name (self s)) = Inr ?h"
    using assms by (rule header_layout)
  have long: "byte_range ?h 12 76 = take 64 enc \<and> byte_range ?h 76 128 = replicate 52 0"
    if "64 \<le> length enc"
  proof -
    have "byte_range ?h 12 76 = ?v \<and> byte_range ?h 76 128 = ?z"
      by (rule byte_range_after_prefix [OF p]) (use that in simp_all)
    moreover have "?z = replicate 52 0"
      using that by simp
    ultimately show ?thesis
      by simp
  qed
  have short: "byte_range ?h 12 (12 + length enc) = enc
      \<and> byte_range ?h (12 + length enc) 128 = replicate (116 - length enc) 0"
    if "length enc < 64"
  proof -
    have "byte_range ?h 12 (12 + length enc) = ?v \<and> byte_range ?h (12 + length enc) 128 = ?z"
      by (rule byte_range_after_prefix [OF p]) (use that in simp_all)
    moreover have "?z = replicate (116 - length enc) 0" and "?v = enc"
      using that by simp_all
    ultimately show ?thesis
      by simp
  qed
  have "\<exists>rest. written filename s = Some (?h @ rest)"
    if "length (nodes (self s)) \<le> 65535"
    using that written_encodable [OF _ assms, of filename] by (simp add: MAX_NODES_def)
  with h long short show ?thesis
    by blast
qed


text \<open>
  The theorem at a name of 63 letters \<^verbatim>\<open>a\<close> followed by U+00E9, whose encoding has 65
  bytes: the cut falls inside the two-byte character, and byte 75 is its first byte.
  And at the name of \<open>straight_100\<close>, whose encoding has 14 bytes.
\<close>

theorem header_name_field_witness:
  "encode_utf8 (name (self \<lparr>self = \<lparr>name = replicate 63 0x61 @ [0xE9], nodes = []\<rparr>,
                           files = Map.empty\<rparr>))
     = Inr (replicate 63 0x61 @ [0xC3, 0xA9])
   \<and> (\<exists>h. make_header (replicate 63 0x61 @ [0xE9]) = Inr h
         \<and> byte_range h 12 76 = replicate 63 0x61 @ [0xC3]
         \<and> byte_range h 76 128 = replicate 52 0
         \<and> (\<exists>rest. written ''long.trk''
                \<lparr>self = \<lparr>name = replicate 63 0x61 @ [0xE9], nodes = []\<rparr>,
                 files = Map.empty\<rparr> = Some (h @ rest)))
   \<and> encode_utf8 (name (self \<lparr>self = straight_100, files = Map.empty\<rparr>))
     = Inr [0x31, 0x30, 0x30, 0x20, 0x6D, 0x20, 0x53, 0x74, 0x72, 0x61, 0x69, 0x67, 0x68, 0x74]
   \<and> (\<exists>h. make_header (name straight_100) = Inr h
         \<and> byte_range h 12 26
             = [0x31, 0x30, 0x30, 0x20, 0x6D, 0x20, 0x53, 0x74, 0x72, 0x61, 0x69, 0x67, 0x68, 0x74]
         \<and> byte_range h 26 128 = replicate 102 0)"
proof -
  let ?s = "\<lparr>self = \<lparr>name = replicate 63 0x61 @ [0xE9], nodes = []\<rparr>,
             files = (Map.empty :: string \<rightharpoonup> byte list)\<rparr>"
  let ?t = "\<lparr>self = straight_100, files = (Map.empty :: string \<rightharpoonup> byte list)\<rparr>"
  have e: "encode_utf8 (name (self ?s)) = Inr (replicate 63 0x61 @ [0xC3, 0xA9])"
    by (simp add: encode_utf8_ascii_run utf8_char_def)
  have f: "encode_utf8 (name (self ?t))
     = Inr [0x31, 0x30, 0x30, 0x20, 0x6D, 0x20, 0x53, 0x74, 0x72, 0x61, 0x69, 0x67, 0x68, 0x74]"
    by (simp add: straight_100_encodes)
  from header_name_field [OF e, of "''long.trk''"] have
    "\<exists>h. make_header (replicate 63 0x61 @ [0xE9]) = Inr h
         \<and> byte_range h 12 76 = replicate 63 0x61 @ [0xC3]
         \<and> byte_range h 76 128 = replicate 52 0
         \<and> (\<exists>rest. written ''long.trk'' ?s = Some (h @ rest))"
    by simp
  moreover from header_name_field [OF f, of "''straight.trk''"] have
    "\<exists>h. make_header (name straight_100) = Inr h
         \<and> byte_range h 12 26
             = [0x31, 0x30, 0x30, 0x20, 0x6D, 0x20, 0x53, 0x74, 0x72, 0x61, 0x69, 0x67, 0x68, 0x74]
         \<and> byte_range h 26 128 = replicate 102 0"
    by auto
  ultimately show ?thesis
    using e f by blast
qed

text \<open>
  C5. In every output that \<^verbatim>\<open>write_trk\<close> produces, bytes 0 to 3 are the ASCII text TRKF,
  bytes 4 to 7 read as an unsigned little-endian number are 0 (the major version) and
  bytes 8 to 11 are 1 (the minor version). An output is what a call that returned
  normally has left in the destination; the same holds for what a call that passed the
  count check and raised later has left there, unless it has left nothing.
\<close>

theorem write_trk_magic_and_versions:
  assumes "written filename s = Some out"
    and "outcome filename s = Inr () \<or> (length (nodes (self s)) \<le> 65535 \<and> out \<noteq> [])"
  shows "byte_range out 0 4 = map of_char ''TRKF''
         \<and> decode_le (byte_range out 4 8) = 0
         \<and> decode_le (byte_range out 8 12) = 1"
proof -
  have "length (nodes (self s)) \<le> MAX_NODES \<and> (\<exists>enc. encode_utf8 (name (self s)) = Inr enc)"
  proof (cases "outcome filename s = Inr ()")
    case True
    then show ?thesis
      by (rule outcome_ok)
  next
    case False
    with assms(2) have n: "length (nodes (self s)) \<le> MAX_NODES" and out: "out \<noteq> []"
      by (simp_all add: MAX_NODES_def)
    show ?thesis
    proof (cases "encode_utf8 (name (self s))")
      case (Inl e)
      from written_unencodable [OF n Inl, of filename] assms(1) out show ?thesis
        by simp
    next
      case (Inr enc)
      with n show ?thesis
        by simp
    qed
  qed
  then obtain enc
    where "length (nodes (self s)) \<le> MAX_NODES" and "encode_utf8 (name (self s)) = Inr enc"
    by blast
  from written_encodable [OF this, of filename] assms(1) obtain rest
    where "out = [0x54, 0x52, 0x4B, 0x46, 0, 0, 0, 0, 1, 0, 0, 0] @ rest"
    by auto
  then show ?thesis
    by (simp add: byte_range_def)
qed

theorem write_trk_magic_and_versions_witness:
  "outcome ''straight.trk'' \<lparr>self = straight_100, files = Map.empty\<rparr> = Inr ()
   \<and> (\<exists>out. written ''straight.trk'' \<lparr>self = straight_100, files = Map.empty\<rparr> = Some out
        \<and> byte_range out 0 4 = [0x54, 0x52, 0x4B, 0x46]
        \<and> decode_le (byte_range out 4 8) = 0
        \<and> decode_le (byte_range out 8 12) = 1)"
proof -
  let ?s = "\<lparr>self = straight_100, files = (Map.empty :: string \<rightharpoonup> byte list)\<rparr>"
  have n: "length (nodes (self ?s)) \<le> MAX_NODES"
    by (simp add: straight_100_count)
  have e: "encode_utf8 (name (self ?s)) = Inr
      [0x31, 0x30, 0x30, 0x20, 0x6D, 0x20, 0x53, 0x74, 0x72, 0x61, 0x69, 0x67, 0x68, 0x74]"
    by (simp add: straight_100_encodes)
  have ok: "outcome ''straight.trk'' ?s = Inr ()"
    by (simp add: outcome_encodable [OF n e] straight_100_packs)
  obtain out where out: "written ''straight.trk'' ?s = Some out"
    using written_encodable [OF n e] by blast
  from write_trk_magic_and_versions [OF out disjI1 [OF ok]] ok out show ?thesis
    by simp
qed

text \<open>
  C6, as amended. Writing the Track \<^verbatim>\<open>("100 m Straight", [(0, 0), (100, 0)])\<close> leaves a
  file of 146 bytes, whatever the destination was before: bytes 0 to 3 are TRKF, bytes 4
  to 11 the versions 0 and 1, bytes 12 to 25 the 14 bytes of the name in UTF-8, bytes 26
  to 127 zero (the padding of the name field through byte 75, and the reserved bytes),
  bytes 128 and 129 are 02 00, bytes 130 to 137 the float32 pair (0.0, 0.0) and bytes 138
  to 145 the pair (100.0, 0.0), that is 00 00 C8 42 and 00 00 00 00. Read as IEEE 754
  binary32, little-endian, the four numbers are +0, +0, +100 (in units of
  \<open>2 ^ - 1074\<close>) and +0.
\<close>

theorem write_trk_straight_100:
  "outcome filename \<lparr>self = straight_100, files = fs\<rparr> = Inr ()
   \<and> (\<exists>out. written filename \<lparr>self = straight_100, files = fs\<rparr> = Some out
         \<and> length out = 146
         \<and> byte_range out 0 4 = map of_char ''TRKF''
         \<and> decode_le (byte_range out 4 8) = 0
         \<and> decode_le (byte_range out 8 12) = 1
         \<and> Inr (byte_range out 12 26) = encode_utf8 (map of_char ''100 m Straight'')
         \<and> byte_range out 26 128 = replicate 102 0
         \<and> byte_range out 128 130 = [0x02, 0x00]
         \<and> byte_range out 130 138 = [0, 0, 0, 0, 0, 0, 0, 0]
         \<and> byte_range out 138 146 = [0, 0, 0xC8, 0x42, 0, 0, 0, 0]
         \<and> float32_le (PyInt 0) (byte_range out 130 134)
         \<and> float32_le (PyInt 0) (byte_range out 134 138)
         \<and> float32_le (PyInt 100) (byte_range out 138 142)
         \<and> float32_le (PyInt 0) (byte_range out 142 146)
         \<and> flt_sign (float_at out 130) = 0 \<and> flt_units (float_at out 130) = 0
         \<and> flt_sign (float_at out 134) = 0 \<and> flt_units (float_at out 134) = 0
         \<and> flt_sign (float_at out 138) = 0 \<and> flt_units (float_at out 138) = 100 * 2 ^ 1074
         \<and> flt_sign (float_at out 142) = 0 \<and> flt_units (float_at out 142) = 0)"
proof -
  have f0: "float32_le (PyInt 0) [0, 0, 0, 0]"
    using float32_le_float_bytes [OF packable_int_0] by (simp add: float_bytes_def pack_f_int_0)
  have f100: "float32_le (PyInt 100) [0, 0, 0xC8, 0x42]"
    using float32_le_float_bytes [OF packable_int_100]
    by (simp add: float_bytes_def pack_f_int_100)
  have v0: "flt_sign 0 = 0 \<and> flt_units 0 = 0"
    by (simp add: flt_sign_def flt_units_def flt_exp_def flt_frac_def)
  have v100: "flt_sign 0x42C80000 = 0 \<and> flt_units 0x42C80000 = 100 * 2 ^ 1074"
    by (simp add: flt_sign_def flt_units_def flt_exp_def flt_frac_def)
  show ?thesis
    unfolding straight_100_written straight_100_outcome encode_utf8_straight
    using f0 f100 v0 v100 by (simp add: byte_range_def float_at_def)
qed

text \<open>
  The claim as written fails at byte 26: the name has 14 bytes and ends at byte 25, so
  bytes 12 to 26 are the name followed by one zero byte, and are not the name.
\<close>

theorem write_trk_straight_100_counterexample:
  "encode_utf8 (map of_char ''100 m Straight'')
     = Inr [0x31, 0x30, 0x30, 0x20, 0x6D, 0x20, 0x53, 0x74, 0x72, 0x61, 0x69, 0x67, 0x68, 0x74]
   \<and> map_option (\<lambda>out. byte_range out 12 27)
         (written ''straight.trk'' \<lparr>self = straight_100, files = Map.empty\<rparr>)
       = Some [0x31, 0x30, 0x30, 0x20, 0x6D, 0x20, 0x53, 0x74, 0x72, 0x61, 0x69, 0x67, 0x68, 0x74, 0]
   \<and> map_option (\<lambda>out. Inr (byte_range out 12 27))
         (written ''straight.trk'' \<lparr>self = straight_100, files = Map.empty\<rparr>)
       \<noteq> Some (encode_utf8 (map of_char ''100 m Straight''))"
  unfolding straight_100_written encode_utf8_straight
  by (simp add: byte_range_def)

text \<open>
  C7. Whatever the name, and whatever the length of its encoding, the header that
  \<^verbatim>\<open>write_trk\<close> builds and writes has exactly 128 bytes: the slice assignment of line 22
  replaces as many bytes as it puts in. So the name never reaches the node-count field:
  when the Track passes the count check, the destination begins with the header and the
  two bytes that follow it are the node count.
\<close>

theorem header_is_128_bytes:
  assumes "make_header (name (self s)) = Inr h"
  shows "length h = 128
         \<and> (length (nodes (self s)) \<le> 65535 \<longrightarrow>
              (\<exists>rest. written filename s = Some (h @ rest)
                 \<and> decode_le (take 2 rest) = length (nodes (self s))))"
proof -
  obtain enc where enc: "encode_utf8 (name (self s)) = Inr enc"
    using assms by (auto simp: make_header_eq split: sum.splits)
  have h: "h = [0x54, 0x52, 0x4B, 0x46, 0, 0, 0, 0, 1, 0, 0, 0] @ take 64 enc
               @ replicate (116 - min 64 (length enc)) 0"
    using assms header_layout [OF enc] by simp
  have "\<exists>rest. written filename s = Some (h @ rest)
          \<and> decode_le (take 2 rest) = length (nodes (self s))"
    if n: "length (nodes (self s)) \<le> 65535"
  proof -
    let ?n = "length (nodes (self s))"
    let ?rest = "[of_nat (?n mod 256), of_nat (?n div 256) :: byte] @ nodes_written (nodes (self s))"
    have "written filename s = Some (h @ ?rest)"
      unfolding h using n by (intro written_encodable enc) (simp add: MAX_NODES_def)
    moreover have "?n div 256 < 256"
      using n by simp
    then have "decode_le (take 2 ?rest) = ?n"
      by (simp add: unat_of_nat)
    ultimately show ?thesis
      by blast
  qed
  with length_make_header [OF assms] show ?thesis
    by blast
qed

theorem header_is_128_bytes_witness:
  "(\<exists>h. make_header (name (self \<lparr>self = straight_100, files = Map.empty\<rparr>)) = Inr h
        \<and> length h = 128
        \<and> (\<exists>rest. written ''straight.trk'' \<lparr>self = straight_100, files = Map.empty\<rparr>
                      = Some (h @ rest)
              \<and> decode_le (take 2 rest) = 2))
   \<and> (\<exists>h. make_header (name (self \<lparr>self = \<lparr>name = replicate 64 0x61, nodes = []\<rparr>,
                                      files = Map.empty\<rparr>)) = Inr h
        \<and> length h = 128)
   \<and> (\<exists>h. make_header (name (self \<lparr>self = \<lparr>name = replicate 200 0x61, nodes = []\<rparr>,
                                      files = Map.empty\<rparr>)) = Inr h
        \<and> length h = 128)"
proof -
  let ?t = "\<lparr>self = straight_100, files = (Map.empty :: string \<rightharpoonup> byte list)\<rparr>"
  let ?u = "\<lparr>self = \<lparr>name = replicate 64 0x61, nodes = []\<rparr>,
             files = (Map.empty :: string \<rightharpoonup> byte list)\<rparr>"
  let ?v = "\<lparr>self = \<lparr>name = replicate 200 0x61, nodes = []\<rparr>,
             files = (Map.empty :: string \<rightharpoonup> byte list)\<rparr>"
  obtain h1 where h1: "make_header (name (self ?t)) = Inr h1"
    using header_layout [of "name (self ?t)"] by (simp add: straight_100_encodes)
  obtain h2 where h2: "make_header (name (self ?u)) = Inr h2"
    using header_layout [of "name (self ?u)"] encode_utf8_ascii_run [of 64 "[]"] by simp
  obtain h3 where h3: "make_header (name (self ?v)) = Inr h3"
    using header_layout [of "name (self ?v)"] encode_utf8_ascii_run [of 200 "[]"] by simp
  have n: "length (nodes (self ?t)) = 2"
    by (simp add: straight_100_fields)
  from header_is_128_bytes [OF h1, of "''straight.trk''"] n
  have "length h1 = 128 \<and> (\<exists>rest. written ''straight.trk'' ?t = Some (h1 @ rest)
              \<and> decode_le (take 2 rest) = 2)"
    by simp
  moreover from header_is_128_bytes [OF h2, of "''x''"] have "length h2 = 128" ..
  moreover from header_is_128_bytes [OF h3, of "''x''"] have "length h3 = 128" ..
  ultimately show ?thesis
    using h1 h2 h3 by blast
qed

text \<open>
  C8, as amended. A Track with exactly 65535 nodes passes the count check, which rejects
  only counts above 65535: the call does not raise the ValueError. For every count that
  passes, \<^verbatim>\<open>to_bytes(2, ...)\<close> returns two bytes that read back as the count, and never
  raises OverflowError. At the limit, when the name has a UTF-8 encoding, bytes 128 and
  129 of the destination are FF FF, and when moreover \<^verbatim>\<open>struct.pack\<close> accepts every
  coordinate, the call returns normally.
\<close>

theorem write_trk_at_node_limit:
  assumes "length (nodes (self s)) = 65535"
  shows "outcome filename s \<noteq> Inl ValueError
         \<and> (\<forall>n \<le> 65535. \<exists>bs. to_bytes (int n) 2 = Inr bs \<and> length bs = 2 \<and> decode_le bs = n)
         \<and> (\<forall>enc. encode_utf8 (name (self s)) = Inr enc \<longrightarrow>
               (\<exists>out. written filename s = Some out \<and> byte_range out 128 130 = [0xFF, 0xFF])
               \<and> (all_packable (nodes (self s)) \<longrightarrow> outcome filename s = Inr ()))"
proof -
  have n: "length (nodes (self s)) \<le> MAX_NODES"
    using assms by (simp add: MAX_NODES_def)
  have 1: "outcome filename s \<noteq> Inl ValueError"
  proof (cases "encode_utf8 (name (self s))")
    case (Inl e)
    with encode_utf8_error [OF Inl] outcome_unencodable [OF n Inl, of filename]
    show ?thesis by simp
  next
    case (Inr enc)
    show ?thesis
      using outcome_encodable [OF n Inr, of filename]
        nodes_outcome_error [of "nodes (self s)" ValueError] by auto
  qed
  have 2: "\<forall>n \<le> 65535. \<exists>bs. to_bytes (int n) 2 = Inr bs \<and> length bs = 2 \<and> decode_le bs = n"
    using to_bytes_count_ok by blast
  have 3: "(\<exists>out. written filename s = Some out \<and> byte_range out 128 130 = [0xFF, 0xFF])
      \<and> (all_packable (nodes (self s)) \<longrightarrow> outcome filename s = Inr ())"
    if enc: "encode_utf8 (name (self s)) = Inr enc" for enc
  proof -
    define h :: "byte list" where "h = [0x54, 0x52, 0x4B, 0x46, 0, 0, 0, 0, 1, 0, 0, 0]
        @ take 64 enc @ replicate (116 - min 64 (length enc)) 0"
    have lh: "length h = 128"
      by (simp add: h_def)
    have "written filename s = Some (h @ [0xFF, 0xFF] @ nodes_written (nodes (self s)))"
      using written_encodable [OF n enc, of filename] assms by (simp add: h_def)
    moreover have "byte_range (h @ [0xFF, 0xFF] @ nodes_written (nodes (self s))) 128 130
        = [0xFF, 0xFF]"
      using lh by (simp add: byte_range_def)
    ultimately have "\<exists>out. written filename s = Some out \<and> byte_range out 128 130 = [0xFF, 0xFF]"
      by blast
    moreover have "outcome filename s = Inr ()" if "all_packable (nodes (self s))"
      using outcome_encodable [OF n enc, of filename] nodes_outcome_packable [OF that] by simp
    ultimately show ?thesis
      by blast
  qed
  from 1 2 3 show ?thesis
    by blast
qed


text \<open>
  The theorem at a Track of 65535 nodes \<^verbatim>\<open>(0, 0)\<close> with the empty name. One node more is
  one too many for the two bytes.
\<close>

theorem write_trk_at_node_limit_witness:
  "length (nodes (self \<lparr>self = \<lparr>name = [], nodes = replicate 65535 (PyInt 0, PyInt 0)\<rparr>,
                        files = Map.empty\<rparr>)) = 65535
   \<and> outcome ''limit.trk'' \<lparr>self = \<lparr>name = [], nodes = replicate 65535 (PyInt 0, PyInt 0)\<rparr>,
                            files = Map.empty\<rparr> = Inr ()
   \<and> (\<exists>out. written ''limit.trk''
          \<lparr>self = \<lparr>name = [], nodes = replicate 65535 (PyInt 0, PyInt 0)\<rparr>,
           files = Map.empty\<rparr> = Some out
        \<and> byte_range out 128 130 = [0xFF, 0xFF])
   \<and> (\<exists>bs. to_bytes 65535 2 = Inr bs \<and> length bs = 2 \<and> decode_le bs = 65535)
   \<and> to_bytes 65536 2 = Inl OverflowError"
proof -
  let ?s = "\<lparr>self = \<lparr>name = [], nodes = replicate 65535 (PyInt 0, PyInt 0)\<rparr>,
             files = (Map.empty :: string \<rightharpoonup> byte list)\<rparr>"
  have n: "length (nodes (self ?s)) = 65535"
    by simp
  have e: "encode_utf8 (name (self ?s)) = Inr []"
    by simp
  have p: "all_packable (nodes (self ?s))"
    by (simp add: all_packable_replicate packable_int_0)
  note t = write_trk_at_node_limit [OF n, of "''limit.trk''"]
  note t3 = t [THEN conjunct2, THEN conjunct2, THEN spec, THEN mp, OF e]
  from t [THEN conjunct2, THEN conjunct1]
  have "\<exists>bs. to_bytes (int 65535) 2 = Inr bs \<and> length bs = 2 \<and> decode_le bs = 65535"
    by blast
  then have "\<exists>bs. to_bytes 65535 2 = Inr bs \<and> length bs = 2 \<and> decode_le bs = 65535"
    by simp
  moreover have "to_bytes 65536 2 = Inl OverflowError"
    by (simp add: to_bytes_def)
  ultimately show ?thesis
    using n t3 [THEN conjunct1] t3 [THEN conjunct2, THEN mp, OF p] by blast
qed

text \<open>
  The claim as written fails: not every Track of 65535 nodes is written. With the lone
  surrogate U+DC80 as name, the count check passes, \<^verbatim>\<open>open\<close> creates the file and
  \<^verbatim>\<open>encode\<close> raises UnicodeEncodeError: the file is empty, without bytes 128 and 129.
\<close>

theorem write_trk_at_node_limit_counterexample:
  "length (nodes (self \<lparr>self = \<lparr>name = [0xDC80], nodes = replicate 65535 (PyInt 0, PyInt 0)\<rparr>,
                        files = Map.empty\<rparr>)) = 65535
   \<and> outcome ''limit.trk''
        \<lparr>self = \<lparr>name = [0xDC80], nodes = replicate 65535 (PyInt 0, PyInt 0)\<rparr>,
         files = Map.empty\<rparr> = Inl UnicodeEncodeError
   \<and> outcome ''limit.trk''
        \<lparr>self = \<lparr>name = [0xDC80], nodes = replicate 65535 (PyInt 0, PyInt 0)\<rparr>,
         files = Map.empty\<rparr> \<noteq> Inr ()
   \<and> written ''limit.trk''
        \<lparr>self = \<lparr>name = [0xDC80], nodes = replicate 65535 (PyInt 0, PyInt 0)\<rparr>,
         files = Map.empty\<rparr> = Some []"
proof -
  let ?s = "\<lparr>self = \<lparr>name = [0xDC80], nodes = replicate 65535 (PyInt 0, PyInt 0)\<rparr>,
             files = (Map.empty :: string \<rightharpoonup> byte list)\<rparr>"
  have n: "length (nodes (self ?s)) \<le> MAX_NODES"
    by (simp add: MAX_NODES_def)
  have e: "encode_utf8 (name (self ?s)) = Inl UnicodeEncodeError"
    by (simp add: utf8_char_def)
  from outcome_unencodable [OF n e, of "''limit.trk''"]
    written_unencodable [OF n e, of "''limit.trk''"]
  show ?thesis
    by simp
qed

text \<open>
  C9. \<^verbatim>\<open>write_trk\<close> is a function of the Track value. Two calls on equal Tracks (same
  name, same node list), in any two states and to any two destinations, end the same
  way, and when the Track passes the count check they leave the same bytes in their
  destinations, whatever the destinations held before. In particular, when one Track is
  written to two different files one after the other, the two files are byte-identical.
\<close>

theorem write_trk_deterministic:
  assumes "self s1 = self s2"
  shows "outcome f1 s1 = outcome f2 s2
         \<and> (length (nodes (self s1)) \<le> 65535 \<longrightarrow>
              written f1 s1 = written f2 s2 \<and> written f1 s1 \<noteq> None
              \<and> (f1 \<noteq> f2 \<longrightarrow>
                   files (snd (write_trk f2 (snd (write_trk f1 s1)))) f1
                   = files (snd (write_trk f2 (snd (write_trk f1 s1)))) f2))"
proof -
  have "files (snd (write_trk f2 (snd (write_trk f1 s1)))) f1
        = files (snd (write_trk f2 (snd (write_trk f1 s1)))) f2"
    if n: "length (nodes (self s1)) \<le> MAX_NODES" and f: "f1 \<noteq> f2"
  proof -
    let ?s' = "snd (write_trk f1 s1)"
    have "files (snd (write_trk f2 ?s')) f1 = files ?s' f1"
      using f by (rule write_trk_other_files)
    also have "\<dots> = written f1 s1"
      by (simp add: written_def)
    also have "\<dots> = written f2 ?s'"
      using written_depends_on_track [of s1 ?s' f1 f2] n by (simp add: write_trk_self)
    finally show ?thesis
      by (simp add: written_def)
  qed
  with assms outcome_depends_on_track [OF assms] written_depends_on_track [OF assms]
  show ?thesis
    by (simp add: MAX_NODES_def)
qed

theorem write_trk_deterministic_witness:
  "self \<lparr>self = straight_100, files = Map.empty\<rparr>
     = self \<lparr>self = straight_100, files = [''b.trk'' \<mapsto> [1, 2, 3]]\<rparr>
   \<and> length (nodes straight_100) \<le> 65535
   \<and> ''a.trk'' \<noteq> ''b.trk''
   \<and> outcome ''a.trk'' \<lparr>self = straight_100, files = Map.empty\<rparr>
       = outcome ''b.trk'' \<lparr>self = straight_100, files = [''b.trk'' \<mapsto> [1, 2, 3]]\<rparr>
   \<and> written ''a.trk'' \<lparr>self = straight_100, files = Map.empty\<rparr>
       = written ''b.trk'' \<lparr>self = straight_100, files = [''b.trk'' \<mapsto> [1, 2, 3]]\<rparr>
   \<and> written ''a.trk'' \<lparr>self = straight_100, files = Map.empty\<rparr> \<noteq> None
   \<and> files (snd (write_trk ''b.trk''
          (snd (write_trk ''a.trk'' \<lparr>self = straight_100, files = Map.empty\<rparr>)))) ''a.trk''
       = files (snd (write_trk ''b.trk''
          (snd (write_trk ''a.trk'' \<lparr>self = straight_100, files = Map.empty\<rparr>)))) ''b.trk''"
proof -
  let ?s1 = "\<lparr>self = straight_100, files = (Map.empty :: string \<rightharpoonup> byte list)\<rparr>"
  let ?s2 = "\<lparr>self = straight_100, files = [''b.trk'' \<mapsto> [1, 2, 3 :: byte]]\<rparr>"
  have h: "self ?s1 = self ?s2"
    by simp
  have n: "length (nodes straight_100) \<le> 65535"
    by (simp add: straight_100_fields)
  then have n': "length (nodes (self ?s1)) \<le> 65535"
    by simp
  have ab: "''a.trk'' \<noteq> ''b.trk''"
    by simp
  note d = write_trk_deterministic [OF h, of "''a.trk''" "''b.trk''"]
  note d2 = d [THEN conjunct2, THEN mp, OF n']
  show ?thesis
    by (intro conjI h n ab d [THEN conjunct1] d2 [THEN conjunct1]
        d2 [THEN conjunct2, THEN conjunct1]
        d2 [THEN conjunct2, THEN conjunct2, THEN mp, OF ab])
qed

text \<open>
  C10. \<^verbatim>\<open>write_trk\<close> does not change the Track it is called on: after the call, whether
  it returned or raised, the object, its name and its nodes are what they were.
\<close>

theorem write_trk_does_not_mutate_track:
  "self (snd (write_trk filename s)) = self s
   \<and> name (self (snd (write_trk filename s))) = name (self s)
   \<and> nodes (self (snd (write_trk filename s))) = nodes (self s)"
  by (simp add: write_trk_self)

end
